theory Spec2Isabelle
  imports Main "HOL-Library.AList"
begin

section \<open>Excel sheet merger: the merge engine of \<^verbatim>\<open>src/App.tsx\<close>\<close>

text \<open>
  The development embeds the helper functions of \<^verbatim>\<open>App.tsx\<close>
  (\<^verbatim>\<open>processMultipleFiles\<close>, \<^verbatim>\<open>processSheetsInFile\<close>,
  \<^verbatim>\<open>getHeadersFromData\<close>) and the \<^verbatim>\<open>handleMerge\<close> callback of the
  \<^verbatim>\<open>App\<close> component.

  Conventions of the embedding:
  \<^item> a JavaScript string is a \<^typ>\<open>string\<close> holding its UTF-8 bytes; only equality of
    strings is ever used by the code;
  \<^item> a JavaScript object used as a row is an association list in the order in which
    \<^verbatim>\<open>Object.keys\<close> enumerates its own properties;
  \<^item> an exception is the \<open>Inl\<close> side of a sum, or \<open>None\<close> for the calls into the
    spreadsheet library;
  \<^item> the reads of file contents (\<^verbatim>\<open>file.arrayBuffer()\<close>) and the React state
    setters are recorded as a list of events in the order in which the code issues them;
  \<^item> \<^verbatim>\<open>console.error\<close> is not modelled;
  \<^item> the spreadsheet library (the global \<^verbatim>\<open>XLSX\<close>) is not part of the
    repository: it is a parameter of every function that calls it.
\<close>

subsection \<open>Rows\<close>

text \<open>
  \<^verbatim>\<open>ExcelRow\<close> is imported from \<^verbatim>\<open>./types\<close>; a cell is a string, a number, a
  boolean or \<^verbatim>\<open>null\<close>. The representation of numbers is the type parameter \<open>'n\<close>:
  the code never computes with a cell.
\<close>

datatype 'n cell = Str string | Num 'n | Bool bool | Null

type_synonym 'n ExcelRow = "(string \<times> 'n cell) list"

text \<open>
  The constant \<^verbatim>\<open>SOURCE_COLUMN_NAME\<close> (line 10), as the UTF-8 bytes of its
  nine characters: T, E with circumflex (U+00CA), N, space, N, G, U, O with circumflex and
  grave (U+1ED2), N.
\<close>

definition SOURCE_COLUMN_NAME :: string where
  "SOURCE_COLUMN_NAME =
     ''T'' @ [CHR 0xC3, CHR 0x8A] @ ''N NGU'' @ [CHR 0xE1, CHR 0xBB, CHR 0x92] @ ''N''"

subsubsection \<open>Property order of a JavaScript object\<close>

text \<open>
  The own property keys of an ordinary object are enumerated with the array indices first,
  in ascending numeric order, and then the other string keys in the order in which they
  were created. An array index is the canonical decimal form of an integer in
  \<open>0 .. 2^32 - 2\<close>.
\<close>

definition is_digit :: "char \<Rightarrow> bool" where
  "is_digit c = (48 \<le> (of_char c :: int) \<and> (of_char c :: int) \<le> 57)"

definition digits_value :: "string \<Rightarrow> int" where
  "digits_value s = foldl (\<lambda>n c. 10 * n + (of_char c - 48)) 0 s"

definition array_index :: "string \<Rightarrow> int option" where
  "array_index k =
     (if k \<noteq> [] \<and> list_all is_digit k \<and> (k = ''0'' \<or> hd k \<noteq> CHR ''0'')
         \<and> digits_value k < 2 ^ 32 - 1
      then Some (digits_value k) else None)"

fun insert_index :: "int \<Rightarrow> string \<Rightarrow> 'v \<Rightarrow> (string \<times> 'v) list \<Rightarrow> (string \<times> 'v) list" where
  "insert_index n k v [] = [(k, v)]"
| "insert_index n k v ((k', v') # ps) =
     (case array_index k' of
        Some m \<Rightarrow> if m < n then (k', v') # insert_index n k v ps else (k, v) # (k', v') # ps
      | None \<Rightarrow> (k, v) # (k', v') # ps)"

text \<open>
  Defining the data property \<open>k\<close> of an object: an existing property keeps its place and
  takes the new value; a new one is created at the place its key has in the enumeration.
\<close>

definition obj_set :: "(string \<times> 'v) list \<Rightarrow> string \<Rightarrow> 'v \<Rightarrow> (string \<times> 'v) list" where
  "obj_set ob k v =
     (if k \<in> fst ` set ob then AList.update k v ob
      else case array_index k of
             Some n \<Rightarrow> insert_index n k v ob
           | None \<Rightarrow> ob @ [(k, v)])"

text \<open>
  The object literal \<^verbatim>\<open>{ [SOURCE_COLUMN_NAME]: sheetName, ...row }\<close>: the provenance
  property is created first, then every own property of \<open>row\<close> is copied in order.
\<close>

definition tag_row :: "string \<Rightarrow> 'n ExcelRow \<Rightarrow> 'n ExcelRow" where
  "tag_row sheetName row =
     fold (\<lambda>(k, v) ob. obj_set ob k v) row [(SOURCE_COLUMN_NAME, Str sheetName)]"

text \<open>\<^verbatim>\<open>row[header]\<close>: \<open>None\<close> is \<^verbatim>\<open>undefined\<close>.\<close>

definition row_get :: "'n ExcelRow \<Rightarrow> string \<Rightarrow> 'n cell option" where
  "row_get row k = map_of row k"

text \<open>An object has each of its keys once.\<close>

definition wf_row :: "'n ExcelRow \<Rightarrow> bool" where
  "wf_row row = distinct (map fst row)"

subsection \<open>The spreadsheet library and files\<close>

text \<open>
  A workbook as the code uses it: \<^verbatim>\<open>workbook.SheetNames\<close> and
  \<^verbatim>\<open>workbook.Sheets[name]\<close> (\<open>None\<close> when the lookup is \<^verbatim>\<open>undefined\<close>). A
  worksheet is opaque (\<open>'w\<close>).
\<close>

record 'w workbook =
  SheetNames :: "string list"
  Sheets :: "string \<Rightarrow> 'w option"

text \<open>
  The two library calls of the merge functions. \<open>XLSX_read\<close> is
  \<^verbatim>\<open>XLSX.read(arrayBuffer, { type: 'array' })\<close> and \<open>sheet_to_json\<close> is
  \<^verbatim>\<open>XLSX.utils.sheet_to_json(worksheet, { defval: null })\<close>; \<open>None\<close> is a thrown
  exception. \<open>sheet_to_json\<close> takes an optional worksheet because the cross-file merge
  passes it the result of the lookup unchecked.
\<close>

record ('b, 'w, 'n) xlsx =
  XLSX_read :: "'b \<Rightarrow> 'w workbook option"
  sheet_to_json :: "'w option \<Rightarrow> 'n ExcelRow list option"

text \<open>
  A \<^verbatim>\<open>File\<close>: its \<^verbatim>\<open>name\<close> and what \<^verbatim>\<open>await file.arrayBuffer()\<close> yields
  (\<open>None\<close> when the promise rejects).
\<close>

record 'b File =
  name :: string
  arrayBuffer :: "'b option"

text \<open>What a \<^verbatim>\<open>catch\<close> clause can receive: an \<^verbatim>\<open>Error\<close> with its message, or
  any other thrown value.\<close>

datatype exn = Error string | Other

text \<open>
  The message of the error thrown by both merge functions: a fixed Vietnamese prefix
  ("cannot process file: ", as UTF-8) followed by \<^verbatim>\<open>file.name\<close>.
\<close>

definition cannot_process :: "string \<Rightarrow> string" where
  "cannot_process file_name =
     ''Kh'' @ [CHR 0xC3, CHR 0xB4] @ ''ng th'' @ [CHR 0xE1, CHR 0xBB, CHR 0x83] @ '' x''
       @ [CHR 0xE1, CHR 0xBB, CHR 0xAD] @ '' l'' @ [CHR 0xC3, CHR 0xBD] @ '' file: ''
       @ file_name"

subsection \<open>The merge functions\<close>

text \<open>
  \<^verbatim>\<open>jsonData.forEach(row => { allRows.push({ [SOURCE_COLUMN_NAME]: sheetName, ...row }) })\<close>
  under its guard \<^verbatim>\<open>if (jsonData.length > 0)\<close>.
\<close>

definition push_rows :: "string \<Rightarrow> 'n ExcelRow list \<Rightarrow> 'n ExcelRow list \<Rightarrow> 'n ExcelRow list" where
  "push_rows sheetName jsonData allRows =
     (if length jsonData > 0
      then fold (\<lambda>row acc. acc @ [tag_row sheetName row]) jsonData allRows
      else allRows)"

text \<open>
  The inner loop of \<^verbatim>\<open>processMultipleFiles\<close>,
  \<^verbatim>\<open>for (const sheetName of workbook.SheetNames)\<close>; \<open>None\<close> when the library throws.
\<close>

fun file_sheets_loop ::
  "('b, 'w, 'n) xlsx \<Rightarrow> 'w workbook \<Rightarrow> string list \<Rightarrow> 'n ExcelRow list \<Rightarrow> 'n ExcelRow list option" where
  "file_sheets_loop X wb [] allRows = Some allRows"
| "file_sheets_loop X wb (sheetName # rest) allRows =
     (case sheet_to_json X (Sheets wb sheetName) of
        None \<Rightarrow> None
      | Some jsonData \<Rightarrow> file_sheets_loop X wb rest (push_rows sheetName jsonData allRows))"

text \<open>
  The body of the \<^verbatim>\<open>try\<close> block for one file: read the bytes, decode them, run the
  inner loop.
\<close>

definition process_file ::
  "('b, 'w, 'n) xlsx \<Rightarrow> 'b File \<Rightarrow> 'n ExcelRow list \<Rightarrow> 'n ExcelRow list option" where
  "process_file X file allRows =
     (case arrayBuffer file of
        None \<Rightarrow> None
      | Some buf \<Rightarrow>
          (case XLSX_read X buf of
             None \<Rightarrow> None
           | Some wb \<Rightarrow> file_sheets_loop X wb (SheetNames wb) allRows))"

text \<open>
  The outer loop \<^verbatim>\<open>for (const file of files)\<close>. The second component of the state is
  the list of the names of the files whose bytes have been requested so far. Whatever the
  \<^verbatim>\<open>try\<close> block throws is replaced by an \<^verbatim>\<open>Error\<close> naming the file.
\<close>

fun files_loop ::
  "('b, 'w, 'n) xlsx \<Rightarrow> 'b File list \<Rightarrow> 'n ExcelRow list \<Rightarrow> string list
     \<Rightarrow> (exn + 'n ExcelRow list) \<times> string list" where
  "files_loop X [] allRows reads = (Inr allRows, reads)"
| "files_loop X (file # rest) allRows reads =
     (case process_file X file allRows of
        None \<Rightarrow> (Inl (Error (cannot_process (name file))), reads @ [name file])
      | Some allRows' \<Rightarrow> files_loop X rest allRows' (reads @ [name file]))"

definition processMultipleFiles ::
  "('b, 'w, 'n) xlsx \<Rightarrow> 'b File list \<Rightarrow> (exn + 'n ExcelRow list) \<times> string list" where
  "processMultipleFiles X files = files_loop X files [] []"

text \<open>
  The loop of \<^verbatim>\<open>processSheetsInFile\<close>,
  \<^verbatim>\<open>for (const sheetName of selectedSheetNames)\<close>, with its
  \<^verbatim>\<open>if (!worksheet) continue\<close>.
\<close>

fun selected_sheets_loop ::
  "('b, 'w, 'n) xlsx \<Rightarrow> 'w workbook \<Rightarrow> string list \<Rightarrow> 'n ExcelRow list \<Rightarrow> 'n ExcelRow list option" where
  "selected_sheets_loop X wb [] allRows = Some allRows"
| "selected_sheets_loop X wb (sheetName # rest) allRows =
     (case Sheets wb sheetName of
        None \<Rightarrow> selected_sheets_loop X wb rest allRows
      | Some worksheet \<Rightarrow>
          (case sheet_to_json X (Some worksheet) of
             None \<Rightarrow> None
           | Some jsonData \<Rightarrow>
               selected_sheets_loop X wb rest (push_rows sheetName jsonData allRows)))"

definition processSheetsInFile ::
  "('b, 'w, 'n) xlsx \<Rightarrow> 'b File \<Rightarrow> string list \<Rightarrow> (exn + 'n ExcelRow list) \<times> string list" where
  "processSheetsInFile X file selectedSheetNames =
     (case (case arrayBuffer file of
              None \<Rightarrow> None
            | Some buf \<Rightarrow>
                (case XLSX_read X buf of
                   None \<Rightarrow> None
                 | Some wb \<Rightarrow> selected_sheets_loop X wb selectedSheetNames []))
      of None \<Rightarrow> (Inl (Error (cannot_process (name file))), [name file])
       | Some allRows \<Rightarrow> (Inr allRows, [name file]))"

subsection \<open>Headers\<close>

text \<open>\<^verbatim>\<open>headerSet.add(key)\<close> on a \<^verbatim>\<open>Set\<close>, kept in insertion order.\<close>

definition set_add :: "'a \<Rightarrow> 'a list \<Rightarrow> 'a list" where
  "set_add x s = (if x \<in> set s then s else s @ [x])"

definition getHeadersFromData :: "'n ExcelRow list \<Rightarrow> string list" where
  "getHeadersFromData data =
     (if length data = 0 then []
      else
        let headerSet = fold (\<lambda>row s. fold set_add (map fst row) s) data [];
            headers = headerSet
        in if SOURCE_COLUMN_NAME \<in> set headers
           then SOURCE_COLUMN_NAME # filter (\<lambda>h. h \<noteq> SOURCE_COLUMN_NAME) headers
           else headers)"

subsection \<open>The session state and \<^verbatim>\<open>handleMerge\<close>\<close>

datatype MergeMode = files_mode | sheets_mode

text \<open>An entry of \<^verbatim>\<open>singleFileSheets\<close>, \<^verbatim>\<open>{ name, selected }\<close>.\<close>

record sheet_entry =
  sheet_name :: string
  selected :: bool

text \<open>The \<^verbatim>\<open>useState\<close> cells of the \<^verbatim>\<open>App\<close> component.\<close>

record ('b, 'n) app =
  mergeMode :: MergeMode
  files :: "'b File list"
  singleFileSheets :: "sheet_entry list"
  mergedData :: "'n ExcelRow list option"
  isLoading :: bool
  error :: "string option"

text \<open>
  What \<^verbatim>\<open>handleMerge\<close> does to the outside, in order: the state setters it calls and
  the reads of file contents made by the merge function it awaits.
\<close>

datatype 'n event =
    SetIsLoading bool
  | SetError "string option"
  | SetMergedData "'n ExcelRow list option"
  | ReadFile string

fun apply_event :: "'n event \<Rightarrow> ('b, 'n) app \<Rightarrow> ('b, 'n) app" where
  "apply_event (SetIsLoading b) s = s\<lparr>isLoading := b\<rparr>"
| "apply_event (SetError e) s = s\<lparr>error := e\<rparr>"
| "apply_event (SetMergedData d) s = s\<lparr>mergedData := d\<rparr>"
| "apply_event (ReadFile f) s = s"

definition run_events :: "'n event list \<Rightarrow> ('b, 'n) app \<Rightarrow> ('b, 'n) app" where
  "run_events evs s = fold apply_event evs s"

text \<open>The four messages of \<^verbatim>\<open>handleMerge\<close> (Vietnamese, as UTF-8), in source order:
  "please choose a file", "please choose at least one sheet to merge", "no data found in
  the chosen files/sheets", "an unknown error occurred".\<close>

definition msg_choose_file :: string where
  "msg_choose_file =
     ''Vui l'' @ [CHR 0xC3, CHR 0xB2] @ ''ng ch'' @ [CHR 0xE1, CHR 0xBB, CHR 0x8D] @ ''n file.''"

definition msg_choose_sheet :: string where
  "msg_choose_sheet =
     ''Vui l'' @ [CHR 0xC3, CHR 0xB2] @ ''ng ch'' @ [CHR 0xE1, CHR 0xBB, CHR 0x8D] @ ''n ''
       @ [CHR 0xC3, CHR 0xAD] @ ''t nh'' @ [CHR 0xE1, CHR 0xBA, CHR 0xA5] @ ''t m''
       @ [CHR 0xE1, CHR 0xBB, CHR 0x99] @ ''t sheet '' @ [CHR 0xC4, CHR 0x91]
       @ [CHR 0xE1, CHR 0xBB, CHR 0x83] @ '' g'' @ [CHR 0xE1, CHR 0xBB, CHR 0x99] @ ''p.''"

definition msg_no_data :: string where
  "msg_no_data =
     ''Kh'' @ [CHR 0xC3, CHR 0xB4] @ ''ng t'' @ [CHR 0xC3, CHR 0xAC] @ ''m th''
       @ [CHR 0xE1, CHR 0xBA, CHR 0xA5] @ ''y d'' @ [CHR 0xE1, CHR 0xBB, CHR 0xAF] @ '' li''
       @ [CHR 0xE1, CHR 0xBB, CHR 0x87] @ ''u trong c'' @ [CHR 0xC3, CHR 0xA1]
       @ ''c file/sheet '' @ [CHR 0xC4, CHR 0x91, CHR 0xC3, CHR 0xA3] @ '' ch''
       @ [CHR 0xE1, CHR 0xBB, CHR 0x8D] @ ''n.''"

definition msg_unknown :: string where
  "msg_unknown =
     [CHR 0xC4, CHR 0x90, CHR 0xC3, CHR 0xA3] @ '' x'' @ [CHR 0xE1, CHR 0xBA, CHR 0xA3]
       @ ''y ra l'' @ [CHR 0xE1, CHR 0xBB, CHR 0x97] @ ''i kh'' @ [CHR 0xC3, CHR 0xB4]
       @ ''ng x'' @ [CHR 0xC3, CHR 0xA1] @ ''c '' @ [CHR 0xC4, CHR 0x91]
       @ [CHR 0xE1, CHR 0xBB, CHR 0x8B] @ ''nh.''"

text \<open>
  The rest of the \<^verbatim>\<open>try\<close> block once the merge function has settled, and the
  \<^verbatim>\<open>catch\<close> clause: the events of the reads, then the setter called.
\<close>

definition after_merge :: "(exn + 'n ExcelRow list) \<times> string list \<Rightarrow> 'n event list" where
  "after_merge r =
     map ReadFile (snd r) @
     (case fst r of
        Inr data \<Rightarrow>
          if length data = 0 then [SetError (Some msg_no_data)]
          else [SetMergedData (Some data)]
      | Inl (Error m) \<Rightarrow> [SetError (Some m)]
      | Inl Other \<Rightarrow> [SetError (Some msg_unknown)])"

text \<open>
  \<^verbatim>\<open>handleMerge\<close>, from the state its closure captured. The early
  \<^verbatim>\<open>return\<close> of the empty selection is inside the \<^verbatim>\<open>try\<close>, so the
  \<^verbatim>\<open>finally\<close> clause runs after it as well.
\<close>

definition handleMerge :: "('b, 'w, 'n) xlsx \<Rightarrow> ('b, 'n) app \<Rightarrow> 'n event list" where
  "handleMerge X s =
     (if length (files s) = 0 then [SetError (Some msg_choose_file)]
      else
        [SetIsLoading True, SetError None, SetMergedData None] @
        (case mergeMode s of
           files_mode \<Rightarrow> after_merge (processMultipleFiles X (files s))
         | sheets_mode \<Rightarrow>
             (let selectedSheets = map sheet_name (filter selected (singleFileSheets s))
              in if length selectedSheets = 0
                 then [SetError (Some msg_choose_sheet), SetIsLoading False]
                 else after_merge (processSheetsInFile X (hd (files s)) selectedSheets))) @
        [SetIsLoading False])"

subsection \<open>Notions used to state the properties\<close>

text \<open>The workbook a file decodes to, when its bytes can be read and decoded.\<close>

definition decoded :: "('b, 'w, 'n) xlsx \<Rightarrow> 'b File \<Rightarrow> 'w workbook option" where
  "decoded X file =
     (case arrayBuffer file of None \<Rightarrow> None | Some buf \<Rightarrow> XLSX_read X buf)"

text \<open>The rows of the sheet named \<open>n\<close> of a workbook: what the library extracts from
  \<^verbatim>\<open>workbook.Sheets[n]\<close>, and no row when the extraction throws.\<close>

definition sheet_rows :: "('b, 'w, 'n) xlsx \<Rightarrow> 'w workbook \<Rightarrow> string \<Rightarrow> 'n ExcelRow list" where
  "sheet_rows X wb n = (case sheet_to_json X (Sheets wb n) of None \<Rightarrow> [] | Some rows \<Rightarrow> rows)"

text \<open>A file decodes: its bytes are read, the workbook is decoded and the rows of every
  sheet it lists are extracted, all without an exception.\<close>

definition file_ok :: "('b, 'w, 'n) xlsx \<Rightarrow> 'b File \<Rightarrow> bool" where
  "file_ok X file =
     (case decoded X file of
        None \<Rightarrow> False
      | Some wb \<Rightarrow> list_all (\<lambda>n. sheet_to_json X (Sheets wb n) \<noteq> None) (SheetNames wb))"

text \<open>The provenance-tagged rows of one sheet, of one file (sheet order, then row order)
  and of a sequence of files (file order first).\<close>

definition tagged_sheet :: "('b, 'w, 'n) xlsx \<Rightarrow> 'w workbook \<Rightarrow> string \<Rightarrow> 'n ExcelRow list" where
  "tagged_sheet X wb n = map (tag_row n) (sheet_rows X wb n)"

definition file_rows :: "('b, 'w, 'n) xlsx \<Rightarrow> 'b File \<Rightarrow> 'n ExcelRow list" where
  "file_rows X file =
     (case decoded X file of
        None \<Rightarrow> []
      | Some wb \<Rightarrow> concat (map (tagged_sheet X wb) (SheetNames wb)))"

definition flattened :: "('b, 'w, 'n) xlsx \<Rightarrow> 'b File list \<Rightarrow> 'n ExcelRow list" where
  "flattened X fs = concat (map (file_rows X) fs)"

text \<open>The sum, over the sheets of a file, of the sheet's row count.\<close>

definition file_row_count :: "('b, 'w, 'n) xlsx \<Rightarrow> 'b File \<Rightarrow> nat" where
  "file_row_count X file =
     (case decoded X file of
        None \<Rightarrow> 0
      | Some wb \<Rightarrow> sum_list (map (\<lambda>n. length (sheet_rows X wb n)) (SheetNames wb)))"

text \<open>For the cross-sheet merge: the tagged rows of the selected names in the order of
  the selection, a name the workbook lacks giving no row; and the selection converts when
  the rows of every selected sheet that exists are extracted without an exception.\<close>

definition selected_rows :: "('b, 'w, 'n) xlsx \<Rightarrow> 'w workbook \<Rightarrow> string list \<Rightarrow> 'n ExcelRow list" where
  "selected_rows X wb sel =
     concat (map (\<lambda>n. case Sheets wb n of None \<Rightarrow> [] | Some w \<Rightarrow> tagged_sheet X wb n) sel)"

definition selection_ok :: "('b, 'w, 'n) xlsx \<Rightarrow> 'w workbook \<Rightarrow> string list \<Rightarrow> bool" where
  "selection_ok X wb sel =
     list_all (\<lambda>n. Sheets wb n = None \<or> sheet_to_json X (Sheets wb n) \<noteq> None) sel"

text \<open>The distinct elements of a sequence in the order of their first appearance.\<close>

fun first_seen :: "'a list \<Rightarrow> 'a list" where
  "first_seen [] = []"
| "first_seen (x # xs) = x # removeAll x (first_seen xs)"

text \<open>The keys met by the scan of \<^verbatim>\<open>getHeadersFromData\<close>: row after row, each row's
  keys in the order of \<^verbatim>\<open>Object.keys\<close>.\<close>

definition scanned_keys :: "'n ExcelRow list \<Rightarrow> string list" where
  "scanned_keys data = concat (map (map fst) data)"

text \<open>An event is a read of file contents.\<close>

fun is_read :: "'n event \<Rightarrow> bool" where
  "is_read (ReadFile f) = True"
| "is_read e = False"

text \<open>The result of the merge function that \<^verbatim>\<open>handleMerge\<close> awaits in state \<open>s\<close>,
  when it reaches that call.\<close>

definition merge_call ::
  "('b, 'w, 'n) xlsx \<Rightarrow> ('b, 'n) app \<Rightarrow> (exn + 'n ExcelRow list) \<times> string list" where
  "merge_call X s =
     (case mergeMode s of
        files_mode \<Rightarrow> processMultipleFiles X (files s)
      | sheets_mode \<Rightarrow>
          processSheetsInFile X (hd (files s))
            (map sheet_name (filter selected (singleFileSheets s))))"

text \<open>Where the rows of a merge come from: a row of a sheet listed by one of the files,
  or a row of a selected sheet that the file has.\<close>

definition from_files :: "('b, 'w, 'n) xlsx \<Rightarrow> 'b File list \<Rightarrow> string \<Rightarrow> 'n ExcelRow \<Rightarrow> bool" where
  "from_files X fs n row =
     (\<exists>f \<in> set fs.
        case decoded X f of
          None \<Rightarrow> False
        | Some wb \<Rightarrow> n \<in> set (SheetNames wb) \<and> row \<in> set (sheet_rows X wb n))"

definition from_selection ::
  "('b, 'w, 'n) xlsx \<Rightarrow> 'b File \<Rightarrow> string list \<Rightarrow> string \<Rightarrow> 'n ExcelRow \<Rightarrow> bool" where
  "from_selection X f sel n row =
     (case decoded X f of
        None \<Rightarrow> False
      | Some wb \<Rightarrow> n \<in> set sel \<and> Sheets wb n \<noteq> None \<and> row \<in> set (sheet_rows X wb n))"

text \<open>
  The order of the keys of an object, as \<^verbatim>\<open>Object.keys\<close> gives them: a key is an
  index when it is an array index, with the number it denotes as its value; a list of keys
  is ordered when the indices come first, in ascending order of their values, before all
  the other keys.
\<close>

definition is_index :: "string \<Rightarrow> bool" where
  "is_index k = (array_index k \<noteq> None)"

definition index_value :: "string \<Rightarrow> int" where
  "index_value k = (case array_index k of None \<Rightarrow> 0 | Some m \<Rightarrow> m)"

definition keys_ordered :: "string list \<Rightarrow> bool" where
  "keys_ordered ks =
     (ks = filter is_index ks @ filter (\<lambda>k. \<not> is_index k) ks
      \<and> sorted (map index_value (filter is_index ks)))"

subsection \<open>Example inputs\<close>

text \<open>
  A stand-in for the library in the examples: the bytes of a file are given as the list of
  its named sheets, each with its rows, or as \<open>None\<close> for bytes that do not decode; the
  rows of a missing worksheet are the empty list.
\<close>

type_synonym sheet_table = "(string \<times> int ExcelRow list) list"

definition table_xlsx :: "(sheet_table option, int ExcelRow list, int) xlsx" where
  "table_xlsx =
     \<lparr>XLSX_read = map_option (\<lambda>t. \<lparr>SheetNames = map fst t, Sheets = map_of t\<rparr>),
      sheet_to_json = (\<lambda>w. Some (case w of None \<Rightarrow> [] | Some rows \<Rightarrow> rows))\<rparr>"

definition table_file :: "string \<Rightarrow> sheet_table \<Rightarrow> sheet_table option File" where
  "table_file n t = \<lparr>name = n, arrayBuffer = Some (Some t)\<rparr>"

definition broken_file :: "string \<Rightarrow> sheet_table option File" where
  "broken_file n = \<lparr>name = n, arrayBuffer = Some None\<rparr>"

text \<open>Two files: the first with the sheets Jan, Apr (which has no row) and Feb, the
  second with the sheet Mar.\<close>

definition F1 :: "sheet_table option File" where
  "F1 = table_file ''F1.xlsx''
     [(''Jan'', [[(''A'', Num 1), (''B'', Num 2)]]), (''Apr'', []), (''Feb'', [[(''A'', Num 3)]])]"

definition F2 :: "sheet_table option File" where
  "F2 = table_file ''F2.xlsx'' [(''Mar'', [[(''B'', Num 5), (''C'', Num 6)]])]"

text \<open>A file whose only sheet has a column named as the provenance column, with an
  empty cell in its only row.\<close>

definition F3 :: "sheet_table option File" where
  "F3 = table_file ''F3.xlsx'' [(''Data'', [[(SOURCE_COLUMN_NAME, Null), (''A'', Num 1)]])]"

text \<open>A file whose only row has two columns named by numbers, and a column of its own
  with the name of the provenance column.\<close>

definition F5 :: "sheet_table option File" where
  "F5 = table_file ''F5.xlsx''
     [(''Years'', [[(''2'', Num 7), (''10'', Num 8), (''A'', Num 1), (SOURCE_COLUMN_NAME, Str ''own'')]])]"

text \<open>A file whose only sheet has no row.\<close>

definition F4 :: "sheet_table option File" where
  "F4 = table_file ''F4.xlsx'' [(''Empty'', [])]"

definition session ::
  "MergeMode \<Rightarrow> sheet_table option File list \<Rightarrow> sheet_entry list \<Rightarrow> (sheet_table option, int) app" where
  "session m fs sheets =
     \<lparr>mergeMode = m, files = fs, singleFileSheets = sheets,
      mergedData = Some [[(''old'', Num 0)]], isLoading = False, error = None\<rparr>"

section \<open>Properties\<close>

subsection \<open>The merge loops\<close>

text \<open>
  Pushing the tagged rows of a sheet appends them in row order, and each loop either runs
  to its end, appending sheet after sheet, or stops at the first exception.
\<close>

lemma fold_push: "fold (\<lambda>row acc. acc @ [g row]) js acc = acc @ map g js"
  by (induction js arbitrary: acc) simp_all

lemma push_rows_append: "push_rows n js acc = acc @ map (tag_row n) js"
  by (cases js) (simp_all add: push_rows_def fold_push)

lemma file_sheets_loop_Some:
  "list_all (\<lambda>n. sheet_to_json X (Sheets wb n) \<noteq> None) ns \<Longrightarrow>
   file_sheets_loop X wb ns acc = Some (acc @ concat (map (tagged_sheet X wb) ns))"
proof (induction ns arbitrary: acc)
  case Nil
  then show ?case by simp
next
  case (Cons n ns)
  then obtain js where js: "sheet_to_json X (Sheets wb n) = Some js" by auto
  with Cons show ?case
    by (simp add: push_rows_append tagged_sheet_def sheet_rows_def)
qed

lemma file_sheets_loop_None:
  "\<not> list_all (\<lambda>n. sheet_to_json X (Sheets wb n) \<noteq> None) ns \<Longrightarrow>
   file_sheets_loop X wb ns acc = None"
  by (induction ns arbitrary: acc) (auto split: option.splits)

lemma process_file_ok:
  "file_ok X f \<Longrightarrow> process_file X f acc = Some (acc @ file_rows X f)"
  by (auto simp: file_ok_def process_file_def decoded_def file_rows_def file_sheets_loop_Some
           split: option.splits)

lemma process_file_fail:
  "\<not> file_ok X f \<Longrightarrow> process_file X f acc = None"
  by (auto simp: file_ok_def process_file_def decoded_def file_sheets_loop_None
           split: option.splits)

lemma files_loop_ok:
  "list_all (file_ok X) fs \<Longrightarrow>
   files_loop X fs acc reads = (Inr (acc @ flattened X fs), reads @ map name fs)"
  by (induction fs arbitrary: acc reads) (simp_all add: process_file_ok flattened_def)

lemma files_loop_fail:
  "list_all (file_ok X) pre \<Longrightarrow> \<not> file_ok X f \<Longrightarrow>
   files_loop X (pre @ f # post) acc reads =
     (Inl (Error (cannot_process (name f))), reads @ map name pre @ [name f])"
  by (induction pre arbitrary: acc reads) (simp_all add: process_file_ok process_file_fail)

lemma first_failure:
  "\<not> list_all P xs \<Longrightarrow> \<exists>pre x post. xs = pre @ x # post \<and> list_all P pre \<and> \<not> P x"
proof (induction xs)
  case Nil
  then show ?case by simp
next
  case (Cons a xs)
  show ?case
  proof (cases "P a")
    case False
    then have "a # xs = [] @ a # xs \<and> list_all P [] \<and> \<not> P a" by simp
    then show ?thesis by blast
  next
    case True
    with Cons obtain pre x post where "xs = pre @ x # post" "list_all P pre" "\<not> P x"
      by auto
    with True have "a # xs = (a # pre) @ x # post \<and> list_all P (a # pre) \<and> \<not> P x" by simp
    then show ?thesis by blast
  qed
qed

lemma processMultipleFiles_result:
  "fst (processMultipleFiles X fs) = Inr rows \<longleftrightarrow> list_all (file_ok X) fs \<and> rows = flattened X fs"
proof (cases "list_all (file_ok X) fs")
  case True
  then show ?thesis by (auto simp: processMultipleFiles_def files_loop_ok)
next
  case False
  then obtain pre f post where "fs = pre @ f # post" "list_all (file_ok X) pre" "\<not> file_ok X f"
    using first_failure by blast
  with False show ?thesis by (simp add: processMultipleFiles_def files_loop_fail)
qed

lemma length_file_rows: "length (file_rows X f) = file_row_count X f"
  by (simp add: file_rows_def file_row_count_def tagged_sheet_def length_concat comp_def
           split: option.splits)

lemma length_flattened: "length (flattened X fs) = sum_list (map (file_row_count X) fs)"
  by (simp add: flattened_def length_concat comp_def length_file_rows)

lemma file_rows_empty: "file_row_count X f = 0 \<Longrightarrow> file_rows X f = []"
  using length_file_rows [of X f] by (metis length_0_conv)

lemma selected_sheets_loop_Some:
  "selection_ok X wb sel \<Longrightarrow>
   selected_sheets_loop X wb sel acc = Some (acc @ selected_rows X wb sel)"
proof (induction sel arbitrary: acc)
  case Nil
  then show ?case by (simp add: selected_rows_def)
next
  case (Cons n sel)
  then have ok: "selection_ok X wb sel" by (simp add: selection_ok_def)
  have rest: "selected_rows X wb (n # sel) =
      (case Sheets wb n of None \<Rightarrow> [] | Some w \<Rightarrow> tagged_sheet X wb n) @ selected_rows X wb sel"
    by (simp add: selected_rows_def)
  show ?case
  proof (cases "Sheets wb n")
    case None
    with Cons.IH [OF ok] rest show ?thesis by simp
  next
    case (Some w)
    with Cons.prems obtain js where js: "sheet_to_json X (Some w) = Some js"
      by (auto simp: selection_ok_def)
    with Some Cons.IH [OF ok] rest show ?thesis
      by (simp add: push_rows_append tagged_sheet_def sheet_rows_def)
  qed
qed

lemma selected_sheets_loop_None:
  "\<not> selection_ok X wb sel \<Longrightarrow> selected_sheets_loop X wb sel acc = None"
  by (induction sel arbitrary: acc) (auto simp: selection_ok_def split: option.splits)

lemma processSheetsInFile_result:
  "processSheetsInFile X f sel =
     (case decoded X f of
        None \<Rightarrow> (Inl (Error (cannot_process (name f))), [name f])
      | Some wb \<Rightarrow>
          if selection_ok X wb sel then (Inr (selected_rows X wb sel), [name f])
          else (Inl (Error (cannot_process (name f))), [name f]))"
  by (auto simp: processSheetsInFile_def decoded_def selected_sheets_loop_Some
        selected_sheets_loop_None split: option.splits)

lemma selected_sheets_loop_native_order:
  "sheet_to_json X' = sheet_to_json X \<Longrightarrow>
   selected_sheets_loop X' (wb\<lparr>SheetNames := ns\<rparr>) sel acc = selected_sheets_loop X wb sel acc"
  by (induction sel arbitrary: acc) (simp_all split: option.splits)

lemma processSheetsInFile_native_order:
  "processSheetsInFile
     (X\<lparr>XLSX_read := \<lambda>b. map_option (\<lambda>wb. wb\<lparr>SheetNames := ns\<rparr>) (XLSX_read X b)\<rparr>) f sel
   = processSheetsInFile X f sel"
  by (simp add: processSheetsInFile_def selected_sheets_loop_native_order split: option.splits)

subsection \<open>The tagged row\<close>

text \<open>
  Creating or redefining a property changes the value of that key only; the spread then
  lets the last writer of a key win.
\<close>

lemma map_of_insert_index:
  "k \<notin> fst ` set ps \<Longrightarrow> map_of (insert_index n k v ps) = (map_of ps)(k \<mapsto> v)"
  by (induction ps) (auto split: option.splits)

lemma map_of_obj_set: "map_of (obj_set ob k v) = (map_of ob)(k \<mapsto> v)"
proof (cases "k \<in> fst ` set ob")
  case True
  then show ?thesis by (simp add: obj_set_def update_conv')
next
  case False
  then have "map_of ob k = None" by (simp add: map_of_eq_None_iff)
  with False show ?thesis
    by (auto simp: obj_set_def map_of_insert_index map_add_def fun_eq_iff split: option.splits)
qed

lemma spread_cases:
  "map_of (fold (\<lambda>(k, v) ob. obj_set ob k v) row ob) k = Some v \<Longrightarrow>
   map_of ob k = Some v \<or> (k, v) \<in> set row"
proof (induction row arbitrary: ob)
  case Nil
  then show ?case by simp
next
  case (Cons p row)
  obtain k' v' where p: "p = (k', v')" by (cases p)
  with Cons.prems have "map_of (fold (\<lambda>(k, v) ob. obj_set ob k v) row (obj_set ob k' v')) k = Some v"
    by simp
  from Cons.IH [OF this] p show ?case
    by (auto simp: map_of_obj_set split: if_splits)
qed

lemma spread_defined:
  "map_of ob k \<noteq> None \<Longrightarrow> map_of (fold (\<lambda>(k, v) ob. obj_set ob k v) row ob) k \<noteq> None"
proof (induction row arbitrary: ob)
  case Nil
  then show ?case by simp
next
  case (Cons p row)
  obtain k' v' where p: "p = (k', v')" by (cases p)
  from Cons.prems have "map_of (obj_set ob k' v') k \<noteq> None"
    by (simp add: map_of_obj_set)
  from Cons.IH [OF this] p show ?case by simp
qed

lemma spread_absent:
  "k \<notin> fst ` set row \<Longrightarrow> map_of (fold (\<lambda>(k, v) ob. obj_set ob k v) row ob) k = map_of ob k"
proof (induction row arbitrary: ob)
  case Nil
  then show ?case by simp
next
  case (Cons p row)
  obtain k' v' where p: "p = (k', v')" by (cases p)
  with Cons.prems have "k \<noteq> k'" "k \<notin> fst ` set row" by auto
  with Cons.IH [of "obj_set ob k' v'"] p show ?case
    by (simp add: map_of_obj_set)
qed

lemma spread_distinct:
  "distinct (map fst row) \<Longrightarrow> (k, v) \<in> set row \<Longrightarrow>
   map_of (fold (\<lambda>(k, v) ob. obj_set ob k v) row ob) k = Some v"
proof (induction row arbitrary: ob)
  case Nil
  then show ?case by simp
next
  case (Cons p row)
  obtain k' v' where p: "p = (k', v')" by (cases p)
  show ?case
  proof (cases "p = (k, v)")
    case True
    with Cons.prems have "k \<notin> fst ` set row" by auto
    from spread_absent [OF this, of "obj_set ob k v"] True show ?thesis
      by (simp add: map_of_obj_set)
  next
    case False
    with Cons.prems have "distinct (map fst row)" "(k, v) \<in> set row" by auto
    from Cons.IH [OF this, of "obj_set ob k' v'"] p show ?thesis by simp
  qed
qed

lemma tag_row_own_value:
  "wf_row row \<Longrightarrow> row_get row k = Some v \<Longrightarrow> row_get (tag_row n row) k = Some v"
  by (simp add: wf_row_def row_get_def tag_row_def spread_distinct)

lemma tag_row_defined: "row_get (tag_row n row) SOURCE_COLUMN_NAME \<noteq> None"
  by (simp add: row_get_def tag_row_def spread_defined)

lemma tag_row_value:
  "row_get (tag_row n row) SOURCE_COLUMN_NAME = Some v \<Longrightarrow>
   v = Str n \<or> (SOURCE_COLUMN_NAME, v) \<in> set row"
  using spread_cases [of row "[(SOURCE_COLUMN_NAME, Str n)]" SOURCE_COLUMN_NAME v]
  by (auto simp: row_get_def tag_row_def)

lemma tag_row_fresh:
  "SOURCE_COLUMN_NAME \<notin> fst ` set row \<Longrightarrow> row_get (tag_row n row) SOURCE_COLUMN_NAME = Some (Str n)"
  by (simp add: row_get_def tag_row_def spread_absent)

text \<open>
  The keys of an object stay ordered when a property is created or redefined, so the keys
  of a tagged row are ordered.
\<close>

lemma keys_orderedI:
  assumes "ks = I @ S" and "list_all is_index I" and "list_all (\<lambda>k. \<not> is_index k) S"
    and "sorted (map index_value I)"
  shows "keys_ordered ks"
proof -
  from assms(2) have i: "filter is_index I = I" "filter (\<lambda>k. \<not> is_index k) I = []"
    by (simp_all add: list_all_iff)
  from assms(3) have s: "filter is_index S = []" "filter (\<lambda>k. \<not> is_index k) S = S"
    by (simp_all add: list_all_iff)
  from assms(1,4) i s show ?thesis by (simp add: keys_ordered_def)
qed

lemma keys_orderedD:
  assumes "keys_ordered ks"
  shows "\<exists>I S. ks = I @ S \<and> list_all is_index I \<and> list_all (\<lambda>k. \<not> is_index k) S
           \<and> sorted (map index_value I)"
proof -
  let ?I = "filter is_index ks" and ?S = "filter (\<lambda>k. \<not> is_index k) ks"
  from assms have "ks = ?I @ ?S" "sorted (map index_value ?I)"
    by (simp_all add: keys_ordered_def)
  moreover have "list_all is_index ?I" "list_all (\<lambda>k. \<not> is_index k) ?S"
    by (simp_all add: list_all_iff)
  ultimately show ?thesis by blast
qed

lemma update_absent: "k \<notin> fst ` set ps \<Longrightarrow> AList.update k v ps = ps @ [(k, v)]"
  by (induction ps) auto

lemma insert_index_keys:
  assumes "array_index k = Some n"
  shows "list_all is_index I \<Longrightarrow> list_all (\<lambda>k. \<not> is_index k) S \<Longrightarrow>
         sorted (map index_value I) \<Longrightarrow> map fst ps = I @ S \<Longrightarrow>
         \<exists>I'. map fst (insert_index n k v ps) = I' @ S \<and> set I' = insert k (set I)
              \<and> sorted (map index_value I')"
proof (induction I arbitrary: ps)
  case Nil
  show ?case
  proof (cases ps)
    case Nil
    with Nil.prems have "map fst (insert_index n k v ps) = [k] @ S" by simp
    then show ?thesis by (intro exI [of _ "[k]"]) simp
  next
    case (Cons p ps')
    with Nil.prems have "\<not> is_index (fst p)" by auto
    then have "array_index (fst p) = None" by (simp add: is_index_def)
    with Cons Nil.prems have "map fst (insert_index n k v ps) = [k] @ S"
      by (cases p) auto
    then show ?thesis by (intro exI [of _ "[k]"]) simp
  qed
next
  case (Cons a I)
  from Cons.prems obtain p ps' where ps: "ps = p # ps'" "fst p = a" "map fst ps' = I @ S"
    by (cases ps) auto
  from Cons.prems have "is_index a" by simp
  then obtain m where m: "array_index a = Some m" by (auto simp: is_index_def)
  then have va: "index_value a = m" by (simp add: index_value_def)
  from assms have vk: "index_value k = n" by (simp add: index_value_def)
  obtain a' v' where p: "p = (a', v')" by (cases p)
  with ps have [simp]: "a' = a" by simp
  show ?case
  proof (cases "m < n")
    case True
    from Cons.prems have "list_all is_index I" "sorted (map index_value I)" by simp_all
    from Cons.IH [OF this(1) Cons.prems(2) this(2) ps(3)]
    obtain I' where I': "map fst (insert_index n k v ps') = I' @ S" "set I' = insert k (set I)"
        "sorted (map index_value I')"
      by blast
    from ps p m True I' have eq: "map fst (insert_index n k v ps) = (a # I') @ S" by simp
    from Cons.prems(3) have "\<forall>x \<in> set I. index_value a \<le> index_value x" by simp
    with I' va vk True have "sorted (map index_value (a # I'))" by auto
    with eq I'(2) show ?thesis by (intro exI [of _ "a # I'"]) auto
  next
    case False
    with ps p m have eq: "map fst (insert_index n k v ps) = (k # a # I) @ S" by simp
    from False va vk Cons.prems(3) have "sorted (map index_value (k # a # I))" by auto
    with eq show ?thesis by (intro exI [of _ "k # a # I"]) auto
  qed
qed

lemma obj_set_ordered:
  assumes "keys_ordered (map fst ob)"
  shows "keys_ordered (map fst (obj_set ob k v))"
proof (cases "k \<in> fst ` set ob")
  case True
  then have "map fst (obj_set ob k v) = map fst ob"
    by (simp add: obj_set_def update_keys)
  with assms show ?thesis by simp
next
  case False
  from keys_orderedD [OF assms] obtain I S where d: "map fst ob = I @ S" "list_all is_index I"
      "list_all (\<lambda>k. \<not> is_index k) S" "sorted (map index_value I)"
    by blast
  show ?thesis
  proof (cases "array_index k")
    case None
    then have "\<not> is_index k" by (simp add: is_index_def)
    with d(3) have s: "list_all (\<lambda>k. \<not> is_index k) (S @ [k])" by simp
    from False None d(1) have "map fst (obj_set ob k v) = I @ (S @ [k])"
      by (simp add: obj_set_def)
    from this d(2) s d(4) show ?thesis by (rule keys_orderedI)
  next
    case (Some n)
    from insert_index_keys [OF Some d(2) d(3) d(4) d(1), of v]
    obtain I' where I': "map fst (insert_index n k v ob) = I' @ S" "set I' = insert k (set I)"
        "sorted (map index_value I')"
      by blast
    from Some have "is_index k" by (simp add: is_index_def)
    with I'(2) d(2) have i: "list_all is_index I'" by (simp add: list_all_iff)
    from False Some I'(1) have "map fst (obj_set ob k v) = I' @ S"
      by (simp add: obj_set_def)
    from this i d(3) I'(3) show ?thesis by (rule keys_orderedI)
  qed
qed

lemma spread_ordered:
  "keys_ordered (map fst ob) \<Longrightarrow>
   keys_ordered (map fst (fold (\<lambda>(k, v) ob. obj_set ob k v) row ob))"
proof (induction row arbitrary: ob)
  case Nil
  then show ?case by simp
next
  case (Cons p row)
  obtain k v where p: "p = (k, v)" by (cases p)
  from Cons.IH [OF obj_set_ordered [OF Cons.prems, of k v]] p show ?case by simp
qed

lemma SOURCE_not_index: "\<not> is_index SOURCE_COLUMN_NAME"
  by (simp add: is_index_def array_index_def SOURCE_COLUMN_NAME_def is_digit_def)

lemma tag_row_ordered: "keys_ordered (map fst (tag_row n row))"
  unfolding tag_row_def
  by (rule spread_ordered) (simp add: keys_ordered_def SOURCE_not_index)

text \<open>
  The keys that are not indices are in the order of their creation: the provenance column
  first, then the other keys of the source row in its order. The keys of the tagged row
  are those of the source row and the provenance column, each once.
\<close>

lemma filter_update:
  "filter (\<lambda>p. P (fst p)) (AList.update k v ps) =
     (if P k then AList.update k v (filter (\<lambda>p. P (fst p)) ps) else filter (\<lambda>p. P (fst p)) ps)"
  by (induction ps) auto

lemma filter_insert_index:
  "array_index k = Some n \<Longrightarrow>
   filter (\<lambda>p. \<not> is_index (fst p)) (insert_index n k v ps) = filter (\<lambda>p. \<not> is_index (fst p)) ps"
  by (induction ps) (auto simp: is_index_def split: option.splits)

lemma filter_obj_set:
  "filter (\<lambda>p. \<not> is_index (fst p)) (obj_set ob k v) =
     (if is_index k then filter (\<lambda>p. \<not> is_index (fst p)) ob
      else AList.update k v (filter (\<lambda>p. \<not> is_index (fst p)) ob))"
proof (cases "k \<in> fst ` set ob")
  case True
  then show ?thesis
    using filter_update [of "\<lambda>k. \<not> is_index k" k v ob] by (simp add: obj_set_def)
next
  case False
  show ?thesis
  proof (cases "array_index k")
    case None
    then have n: "\<not> is_index k" by (simp add: is_index_def)
    from False have "k \<notin> fst ` set (filter (\<lambda>p. \<not> is_index (fst p)) ob)" by auto
    from update_absent [OF this, of v] False None n show ?thesis
      by (simp add: obj_set_def)
  next
    case (Some n)
    then have "is_index k" by (simp add: is_index_def)
    with False Some show ?thesis by (simp add: obj_set_def filter_insert_index)
  qed
qed

lemma filter_spread:
  "filter (\<lambda>p. \<not> is_index (fst p)) (fold (\<lambda>(k, v) ob. obj_set ob k v) row ob) =
     fold (\<lambda>(k, v) ob. AList.update k v ob) (filter (\<lambda>p. \<not> is_index (fst p)) row)
       (filter (\<lambda>p. \<not> is_index (fst p)) ob)"
proof (induction row arbitrary: ob)
  case Nil
  then show ?case by simp
next
  case (Cons p row)
  obtain k v where p: "p = (k, v)" by (cases p)
  from Cons [of "obj_set ob k v"] p show ?case by (simp add: filter_obj_set)
qed

lemma fold_update_head:
  "distinct (map fst row) \<Longrightarrow> K \<notin> fst ` set acc \<Longrightarrow> fst ` set row \<inter> fst ` set acc = {} \<Longrightarrow>
   fold (\<lambda>(k, v) ob. AList.update k v ob) row ((K, s) # acc) =
     (K, case map_of row K of None \<Rightarrow> s | Some v \<Rightarrow> v) # acc @ filter (\<lambda>p. fst p \<noteq> K) row"
proof (induction row arbitrary: s acc)
  case Nil
  then show ?case by simp
next
  case (Cons p row)
  obtain k v where p: "p = (k, v)" by (cases p)
  from Cons.prems p have d: "distinct (map fst row)" "k \<notin> fst ` set row" by auto
  show ?case
  proof (cases "k = K")
    case True
    with d have "map_of row K = None" by (simp add: map_of_eq_None_iff)
    moreover from Cons.prems have "fst ` set row \<inter> fst ` set acc = {}" by auto
    ultimately show ?thesis
      using Cons.IH [OF d(1) Cons.prems(2), of v] p True by simp
  next
    case False
    from Cons.prems p have "k \<notin> fst ` set acc" by auto
    then have u: "AList.update k v acc = acc @ [(k, v)]" by (rule update_absent)
    from Cons.prems p d False have "K \<notin> fst ` set (acc @ [(k, v)])"
        "fst ` set row \<inter> fst ` set (acc @ [(k, v)]) = {}"
      by auto
    from Cons.IH [OF d(1) this, of s] p False u show ?thesis by simp
  qed
qed

lemma tag_row_rest:
  assumes "wf_row row"
  shows "filter (\<lambda>p. \<not> is_index (fst p)) (tag_row n row) =
     (SOURCE_COLUMN_NAME, case row_get row SOURCE_COLUMN_NAME of None \<Rightarrow> Str n | Some v \<Rightarrow> v)
       # filter (\<lambda>p. \<not> is_index (fst p) \<and> fst p \<noteq> SOURCE_COLUMN_NAME) row"
proof -
  let ?N = "\<lambda>p :: string \<times> 'a cell. \<not> is_index (fst p)"
  from assms have d: "distinct (map fst (filter ?N row))"
    by (simp add: wf_row_def distinct_map_filter)
  have m: "map_of (filter ?N row) SOURCE_COLUMN_NAME = map_of row SOURCE_COLUMN_NAME"
    by (induction row) (auto simp: SOURCE_not_index)
  have f: "filter (\<lambda>p. fst p \<noteq> SOURCE_COLUMN_NAME) (filter ?N row)
      = filter (\<lambda>p. \<not> is_index (fst p) \<and> fst p \<noteq> SOURCE_COLUMN_NAME) row"
    by (induction row) auto
  from fold_update_head [OF d, of SOURCE_COLUMN_NAME "[]" "Str n"] m f show ?thesis
    by (simp add: tag_row_def filter_spread SOURCE_not_index row_get_def)
qed

lemma obj_set_keys: "fst ` set (obj_set ob k v) = insert k (fst ` set ob)"
proof -
  have "dom (map_of (obj_set ob k v)) = insert k (dom (map_of ob))"
    by (simp add: map_of_obj_set)
  then show ?thesis by (simp add: dom_map_of_conv_image_fst)
qed

lemma spread_keys:
  "fst ` set (fold (\<lambda>(k, v) ob. obj_set ob k v) row ob) = fst ` set ob \<union> fst ` set row"
proof (induction row arbitrary: ob)
  case Nil
  then show ?case by simp
next
  case (Cons p row)
  obtain k v where p: "p = (k, v)" by (cases p)
  from Cons [of "obj_set ob k v"] p show ?case by (simp add: obj_set_keys)
qed

lemma tag_row_keys: "fst ` set (tag_row n row) = insert SOURCE_COLUMN_NAME (fst ` set row)"
  by (simp add: tag_row_def spread_keys)

lemma insert_index_keyset: "fst ` set (insert_index n k v ps) = insert k (fst ` set ps)"
proof (induction ps)
  case Nil
  then show ?case by simp
next
  case (Cons p ps)
  obtain a b where p: "p = (a, b)" by (cases p)
  show ?case
  proof (cases "array_index a")
    case None
    with p show ?thesis by auto
  next
    case (Some m)
    with p Cons show ?thesis by (cases "m < n") auto
  qed
qed

lemma insert_index_distinct:
  "k \<notin> fst ` set ps \<Longrightarrow> distinct (map fst ps) \<Longrightarrow> distinct (map fst (insert_index n k v ps))"
proof (induction ps)
  case Nil
  then show ?case by simp
next
  case (Cons p ps)
  obtain a b where p: "p = (a, b)" by (cases p)
  from Cons.prems p have a: "a \<noteq> k" "a \<notin> fst ` set ps" "k \<notin> fst ` set ps"
      "distinct (map fst ps)"
    by auto
  show ?case
  proof (cases "array_index a")
    case None
    with p a show ?thesis by simp
  next
    case (Some m)
    show ?thesis
    proof (cases "m < n")
      case True
      from a have "a \<notin> fst ` set (insert_index n k v ps)" by (simp add: insert_index_keyset)
      with Cons.IH [OF a(3,4)] p Some True show ?thesis by simp
    next
      case False
      with p a Some show ?thesis by simp
    qed
  qed
qed

lemma obj_set_distinct: "distinct (map fst ob) \<Longrightarrow> distinct (map fst (obj_set ob k v))"
  by (auto simp: obj_set_def distinct_update insert_index_distinct split: option.splits)

lemma spread_wf:
  "distinct (map fst ob) \<Longrightarrow> distinct (map fst (fold (\<lambda>(k, v) ob. obj_set ob k v) row ob))"
proof (induction row arbitrary: ob)
  case Nil
  then show ?case by simp
next
  case (Cons p row)
  obtain k v where p: "p = (k, v)" by (cases p)
  from Cons.IH [OF obj_set_distinct [OF Cons.prems, of k v]] p show ?case by simp
qed

lemma tag_row_wf: "wf_row (tag_row n row)"
  by (simp add: wf_row_def tag_row_def spread_wf)

lemma tag_row_content:
  assumes "wf_row row"
  shows "row_get (tag_row n row) k =
     (case row_get row k of
        Some v \<Rightarrow> Some v
      | None \<Rightarrow> if k = SOURCE_COLUMN_NAME then Some (Str n) else None)"
proof (cases "row_get row k")
  case None
  then have "k \<notin> fst ` set row" by (simp add: row_get_def map_of_eq_None_iff)
  from spread_absent [OF this, of "[(SOURCE_COLUMN_NAME, Str n)]"] None show ?thesis
    by (simp add: row_get_def tag_row_def)
next
  case (Some v)
  with assms tag_row_own_value [of row k v n] show ?thesis by simp
qed

lemma tag_row_plain:
  assumes "wf_row row" and "list_all (\<lambda>p. \<not> is_index (fst p)) row"
  shows "tag_row n row =
     (SOURCE_COLUMN_NAME, case row_get row SOURCE_COLUMN_NAME of None \<Rightarrow> Str n | Some v \<Rightarrow> v)
       # filter (\<lambda>p. fst p \<noteq> SOURCE_COLUMN_NAME) row"
proof -
  from assms(2) have "\<forall>k \<in> fst ` set (tag_row n row). \<not> is_index k"
    by (auto simp: tag_row_keys SOURCE_not_index list_all_iff)
  then have a: "filter (\<lambda>p. \<not> is_index (fst p)) (tag_row n row) = tag_row n row"
    by (auto intro: filter_True)
  from assms(2) have b: "filter (\<lambda>p. \<not> is_index (fst p) \<and> fst p \<noteq> SOURCE_COLUMN_NAME) row
      = filter (\<lambda>p. fst p \<noteq> SOURCE_COLUMN_NAME) row"
    by (auto simp: list_all_iff intro: filter_cong)
  from tag_row_rest [OF assms(1), of n] a b show ?thesis by simp
qed

text \<open>
  Every row a merge returns is the tagged form of a row of one of its sources.
\<close>

lemma flattened_source:
  "r \<in> set (flattened X fs) \<Longrightarrow> \<exists>n row. from_files X fs n row \<and> r = tag_row n row"
proof -
  assume "r \<in> set (flattened X fs)"
  then obtain f where f: "f \<in> set fs" "r \<in> set (file_rows X f)"
    by (auto simp: flattened_def)
  then obtain wb where d: "decoded X f = Some wb"
    by (cases "decoded X f") (auto simp: file_rows_def)
  with f obtain n where wb: "decoded X f = Some wb" "n \<in> set (SheetNames wb)"
      "r \<in> set (tagged_sheet X wb n)"
    by (auto simp: file_rows_def)
  then obtain row where "row \<in> set (sheet_rows X wb n)" "r = tag_row n row"
    by (auto simp: tagged_sheet_def)
  with f wb have "from_files X fs n row \<and> r = tag_row n row"
    by (auto simp: from_files_def intro!: bexI [of _ f])
  then show ?thesis by blast
qed

lemma selected_source:
  "decoded X f = Some wb \<Longrightarrow> r \<in> set (selected_rows X wb sel) \<Longrightarrow>
   \<exists>n row. from_selection X f sel n row \<and> r = tag_row n row"
proof -
  assume d: "decoded X f = Some wb" and "r \<in> set (selected_rows X wb sel)"
  then obtain n where n0: "n \<in> set sel"
      "r \<in> set (case Sheets wb n of None \<Rightarrow> [] | Some w \<Rightarrow> tagged_sheet X wb n)"
    by (auto simp: selected_rows_def)
  then have n: "n \<in> set sel" "Sheets wb n \<noteq> None" "r \<in> set (tagged_sheet X wb n)"
    by (cases "Sheets wb n"; simp)+
  then obtain row where "row \<in> set (sheet_rows X wb n)" "r = tag_row n row"
    by (auto simp: tagged_sheet_def)
  with d n have "from_selection X f sel n row \<and> r = tag_row n row"
    by (simp add: from_selection_def)
  then show ?thesis by blast
qed

lemma merged_row_source:
  assumes "fst (processMultipleFiles X fs) = Inr rows \<and> src = from_files X fs
         \<or> fst (processSheetsInFile X f sel) = Inr rows \<and> src = from_selection X f sel"
    and "r \<in> set rows"
  shows "\<exists>n row. src n row \<and> r = tag_row n row"
  using assms
  by (auto simp: processMultipleFiles_result processSheetsInFile_result
        dest: flattened_source selected_source split: option.splits if_splits)

subsection \<open>The header scan\<close>

text \<open>
  \<open>first_seen\<close> is the scan that appends a key the first time it is met and ignores
  it afterwards; the insertion-ordered set of \<^verbatim>\<open>getHeadersFromData\<close> computes it.
\<close>

lemma first_seen_set [simp]: "set (first_seen xs) = set xs"
  by (induction xs) auto

lemma first_seen_distinct [simp]: "distinct (first_seen xs)"
  by (induction xs) (auto simp: distinct_removeAll)

lemma first_seen_snoc:
  "first_seen (xs @ [x]) = (if x \<in> set xs then first_seen xs else first_seen xs @ [x])"
  by (induction xs) auto

lemma fold_set_add: "fold set_add ks s = s @ filter (\<lambda>k. k \<notin> set s) (first_seen ks)"
proof (induction ks arbitrary: s)
  case Nil
  then show ?case by simp
next
  case (Cons x xs)
  show ?case
  proof (cases "x \<in> set s")
    case True
    then have "filter (\<lambda>k. k \<notin> set s) (removeAll x (first_seen xs)) = filter (\<lambda>k. k \<notin> set s) (first_seen xs)"
      by (auto simp: removeAll_filter_not_eq intro: filter_cong)
    with True Cons [of s] show ?thesis by (simp add: set_add_def)
  next
    case False
    have "filter (\<lambda>k. k \<notin> set (s @ [x])) (first_seen xs) = filter (\<lambda>k. k \<notin> set s) (removeAll x (first_seen xs))"
      by (auto simp: removeAll_filter_not_eq intro: filter_cong)
    with False Cons [of "s @ [x]"] show ?thesis by (simp add: set_add_def)
  qed
qed

lemma header_scan:
  "fold (\<lambda>row s. fold set_add (map fst row) s) data s = fold set_add (scanned_keys data) s"
  by (induction data arbitrary: s) (simp_all add: scanned_keys_def)

lemma headerSet_first_seen:
  "fold (\<lambda>row s. fold set_add (map fst row) s) data [] = first_seen (scanned_keys data)"
  by (simp only: header_scan) (simp add: fold_set_add)

subsection \<open>Events\<close>

lemma run_reads [simp]: "fold apply_event (map ReadFile rs) s = s"
  by (induction rs) simp_all

lemma after_merge_mergedData:
  "mergedData (fold apply_event (after_merge r) s) =
     (case fst r of Inr data \<Rightarrow> if data = [] then mergedData s else Some data
      | Inl e \<Rightarrow> mergedData s)"
  by (simp add: after_merge_def split: sum.splits exn.splits)

subsection \<open>Unfolding the examples\<close>

lemmas ex_defs = table_xlsx_def table_file_def broken_file_def F1_def F2_def F3_def F4_def
  F5_def session_def

lemmas row_defs = tag_row_def obj_set_def array_index_def is_digit_def SOURCE_COLUMN_NAME_def
  row_get_def wf_row_def

lemmas index_defs = is_index_def index_value_def digits_value_def
lemmas merge_defs = processMultipleFiles_def process_file_def push_rows_def
  processSheetsInFile_def

lemmas spec_defs = file_ok_def decoded_def flattened_def file_rows_def tagged_sheet_def
  sheet_rows_def file_row_count_def selected_rows_def selection_ok_def from_files_def
  from_selection_def

section \<open>The claims\<close>

subsection \<open>C1: the cross-file merge flattens files, sheets and rows in order\<close>

text \<open>
  Claim C1. \<^verbatim>\<open>processMultipleFiles\<close> returns rows exactly when every file decodes,
  and what it returns is then the concatenation, in file order, then sheet order within
  the file, then row order within the sheet, of the provenance-tagged rows of each sheet.
  The number of rows is the sum over all files and sheets of the sheet's row count. A file
  or a sheet with no row contributes nothing, not even a row holding the provenance alone.
\<close>

theorem processMultipleFiles_flatten:
  "(fst (processMultipleFiles X fs) = Inr rows
      \<longleftrightarrow> list_all (file_ok X) fs \<and> rows = flattened X fs)
   \<and> length (flattened X fs) = sum_list (map (file_row_count X) fs)
   \<and> (file_row_count X f = 0 \<longrightarrow> file_rows X f = [])
   \<and> (sheet_rows X wb n = [] \<longrightarrow> tagged_sheet X wb n = [])"
  by (simp add: processMultipleFiles_result length_flattened tagged_sheet_def file_rows_empty)

text \<open>
  The two example files: three rows from the sheets Jan, Feb and Mar, none from the empty
  sheet Apr, and a file with one empty sheet gives no row.
\<close>

theorem processMultipleFiles_flatten_witness:
  "list_all (file_ok table_xlsx) [F1, F2]
   \<and> fst (processMultipleFiles table_xlsx [F1, F2]) =
       Inr [[(SOURCE_COLUMN_NAME, Str ''Jan''), (''A'', Num 1), (''B'', Num 2)],
            [(SOURCE_COLUMN_NAME, Str ''Feb''), (''A'', Num 3)],
            [(SOURCE_COLUMN_NAME, Str ''Mar''), (''B'', Num 5), (''C'', Num 6)]]
   \<and> sum_list (map (file_row_count table_xlsx) [F1, F2]) = 3
   \<and> file_row_count table_xlsx F4 = 0 \<and> file_rows table_xlsx F4 = []"
proof -
  have ok: "list_all (file_ok table_xlsx) [F1, F2]"
    by (simp add: ex_defs spec_defs)
  have rows: "flattened table_xlsx [F1, F2] =
       [[(SOURCE_COLUMN_NAME, Str ''Jan''), (''A'', Num 1), (''B'', Num 2)],
        [(SOURCE_COLUMN_NAME, Str ''Feb''), (''A'', Num 3)],
        [(SOURCE_COLUMN_NAME, Str ''Mar''), (''B'', Num 5), (''C'', Num 6)]]"
    by (simp add: ex_defs spec_defs row_defs)
  have zero: "file_row_count table_xlsx F4 = 0"
    by (simp add: ex_defs spec_defs)
  from processMultipleFiles_flatten [of table_xlsx "[F1, F2]" "flattened table_xlsx [F1, F2]" F4]
    ok rows zero
  show ?thesis by (simp add: numeral_3_eq_3)
qed

subsection \<open>C2: the headers\<close>

text \<open>
  Claim C2. \<^verbatim>\<open>getHeadersFromData\<close> returns the keys of the rows without
  duplicates, every key of every row being there, in the order of first appearance in the
  scan of the rows, except that the provenance column, when it occurs, is moved to index 0;
  the order of the other names among themselves is the order of first appearance. For the
  empty sequence of rows the result is empty.
\<close>

theorem getHeadersFromData_headers:
  "getHeadersFromData data =
     (if SOURCE_COLUMN_NAME \<in> set (scanned_keys data)
      then SOURCE_COLUMN_NAME # filter (\<lambda>h. h \<noteq> SOURCE_COLUMN_NAME) (first_seen (scanned_keys data))
      else first_seen (scanned_keys data))
   \<and> distinct (getHeadersFromData data)
   \<and> set (getHeadersFromData data) = (\<Union>row \<in> set data. fst ` set row)
   \<and> (SOURCE_COLUMN_NAME \<in> set (getHeadersFromData data)
        \<longrightarrow> getHeadersFromData data ! 0 = SOURCE_COLUMN_NAME)
   \<and> filter (\<lambda>h. h \<noteq> SOURCE_COLUMN_NAME) (getHeadersFromData data)
        = filter (\<lambda>h. h \<noteq> SOURCE_COLUMN_NAME) (first_seen (scanned_keys data))
   \<and> getHeadersFromData [] = []"
proof -
  have eq: "getHeadersFromData data =
     (if SOURCE_COLUMN_NAME \<in> set (scanned_keys data)
      then SOURCE_COLUMN_NAME # filter (\<lambda>h. h \<noteq> SOURCE_COLUMN_NAME) (first_seen (scanned_keys data))
      else first_seen (scanned_keys data))"
  proof (cases data)
    case Nil
    then show ?thesis by (simp add: getHeadersFromData_def scanned_keys_def)
  next
    case (Cons r rs)
    then have "length data \<noteq> 0" by simp
    then show ?thesis
      by (simp add: getHeadersFromData_def headerSet_first_seen Let_def)
  qed
  have keys: "set (scanned_keys data) = (\<Union>row \<in> set data. fst ` set row)"
    by (simp add: scanned_keys_def)
  have d: "distinct (getHeadersFromData data)"
    by (simp add: eq)
  have s: "set (getHeadersFromData data) = (\<Union>row \<in> set data. fst ` set row)"
    unfolding keys [symmetric] by (auto simp: eq)
  have h: "SOURCE_COLUMN_NAME \<in> set (getHeadersFromData data)
        \<longrightarrow> getHeadersFromData data ! 0 = SOURCE_COLUMN_NAME"
    by (auto simp: eq)
  have r: "filter (\<lambda>h. h \<noteq> SOURCE_COLUMN_NAME) (getHeadersFromData data)
        = filter (\<lambda>h. h \<noteq> SOURCE_COLUMN_NAME) (first_seen (scanned_keys data))"
    by (simp add: eq)
  have e: "getHeadersFromData [] = ([] :: string list)"
    by (simp add: getHeadersFromData_def)
  from eq d s h r e show ?thesis by blast
qed

text \<open>
  Two rows in which the provenance column is met second: it comes first in the headers,
  the other names keep the order of the scan.
\<close>

theorem getHeadersFromData_headers_witness:
  "getHeadersFromData
     [[(''2'', Num (1::int)), (SOURCE_COLUMN_NAME, Str ''S''), (''A'', Null)],
      [(''B'', Null), (''A'', Num 7)]]
     = [SOURCE_COLUMN_NAME, ''2'', ''A'', ''B'']
   \<and> first_seen (scanned_keys
        [[(''2'', Num (1::int)), (SOURCE_COLUMN_NAME, Str ''S''), (''A'', Null)],
         [(''B'', Null), (''A'', Num 7)]])
     = [''2'', SOURCE_COLUMN_NAME, ''A'', ''B'']
   \<and> getHeadersFromData
        [[(''2'', Num (1::int)), (SOURCE_COLUMN_NAME, Str ''S''), (''A'', Null)],
         [(''B'', Null), (''A'', Num 7)]] ! 0 = SOURCE_COLUMN_NAME"
proof -
  let ?data = "[[(''2'', Num (1::int)), (SOURCE_COLUMN_NAME, Str ''S''), (''A'', Null)],
      [(''B'', Null), (''A'', Num 7)]]"
  have scan: "first_seen (scanned_keys ?data) = [''2'', SOURCE_COLUMN_NAME, ''A'', ''B'']"
    by (simp add: scanned_keys_def SOURCE_COLUMN_NAME_def)
  have mem: "SOURCE_COLUMN_NAME \<in> set (scanned_keys ?data)"
    by (simp add: scanned_keys_def)
  have rest: "filter (\<lambda>h. h \<noteq> SOURCE_COLUMN_NAME) [''2'', SOURCE_COLUMN_NAME, ''A'', ''B'']
      = [''2'', ''A'', ''B'']"
    by (simp add: SOURCE_COLUMN_NAME_def)
  from getHeadersFromData_headers [of ?data]
  have "getHeadersFromData ?data =
     (if SOURCE_COLUMN_NAME \<in> set (scanned_keys ?data)
      then SOURCE_COLUMN_NAME # filter (\<lambda>h. h \<noteq> SOURCE_COLUMN_NAME) (first_seen (scanned_keys ?data))
      else first_seen (scanned_keys ?data))"
    by (rule conjunct1)
  with mem have "getHeadersFromData ?data =
      SOURCE_COLUMN_NAME # filter (\<lambda>h. h \<noteq> SOURCE_COLUMN_NAME) (first_seen (scanned_keys ?data))"
    by (simp only: if_True)
  then have res: "getHeadersFromData ?data = [SOURCE_COLUMN_NAME, ''2'', ''A'', ''B'']"
    by (simp only: scan rest)
  have "[SOURCE_COLUMN_NAME, ''2'', ''A'', ''B''] ! 0 = SOURCE_COLUMN_NAME" by simp
  with res scan show ?thesis by (simp only: simp_thms)
qed

subsection \<open>C3: the source row overwrites the provenance tag\<close>

text \<open>
  Claim C3. In both merge modes every output row is \<open>tag_row n row\<close> for a source
  row \<open>row\<close> of a sheet named \<open>n\<close>, that is, the object in which the provenance
  column is set to the sheet name first and the source row is spread afterwards. Hence a
  source row that has a column with the name of the provenance column keeps its own value
  there, and a source row without such a column gets the sheet name. The tagged row is
  the whole of it: every column of the source row is there with its value, the provenance
  column is the only key added, no key occurs twice, the keys are in the order of an
  object (indices first and ascending, then the provenance column, then the other columns
  of the source row in their order), and for a source row without index keys the tagged
  row is the provenance cell followed by the other cells of the source row.
\<close>

theorem source_value_overwrites_tag:
  assumes "fst (processMultipleFiles X fs) = Inr rows \<and> src = from_files X fs
         \<or> fst (processSheetsInFile X f sel) = Inr rows \<and> src = from_selection X f sel"
    and "r \<in> set rows"
  shows "(\<exists>n row. src n row \<and> r = tag_row n row)
       \<and> (\<forall>n row v. wf_row row \<and> row_get row SOURCE_COLUMN_NAME = Some v
             \<longrightarrow> row_get (tag_row n (row :: 'n ExcelRow)) SOURCE_COLUMN_NAME = Some v)
       \<and> (\<forall>n row. SOURCE_COLUMN_NAME \<notin> fst ` set row
             \<longrightarrow> row_get (tag_row n (row :: 'n ExcelRow)) SOURCE_COLUMN_NAME = Some (Str n))
       \<and> (\<forall>n row k. wf_row row
             \<longrightarrow> row_get (tag_row n (row :: 'n ExcelRow)) k =
                   (case row_get row k of
                      Some v \<Rightarrow> Some v
                    | None \<Rightarrow> if k = SOURCE_COLUMN_NAME then Some (Str n) else None))
       \<and> (\<forall>n row. fst ` set (tag_row n (row :: 'n ExcelRow))
                      = insert SOURCE_COLUMN_NAME (fst ` set row)
             \<and> wf_row (tag_row n row)
             \<and> keys_ordered (map fst (tag_row n row)))
       \<and> (\<forall>n row. wf_row row
             \<longrightarrow> filter (\<lambda>p. \<not> is_index (fst p)) (tag_row n (row :: 'n ExcelRow)) =
                   (SOURCE_COLUMN_NAME,
                    case row_get row SOURCE_COLUMN_NAME of None \<Rightarrow> Str n | Some v \<Rightarrow> v)
                   # filter (\<lambda>p. \<not> is_index (fst p) \<and> fst p \<noteq> SOURCE_COLUMN_NAME) row)
       \<and> (\<forall>n row. wf_row row \<and> list_all (\<lambda>p. \<not> is_index (fst p)) row
             \<longrightarrow> tag_row n (row :: 'n ExcelRow) =
                   (SOURCE_COLUMN_NAME,
                    case row_get row SOURCE_COLUMN_NAME of None \<Rightarrow> Str n | Some v \<Rightarrow> v)
                   # filter (\<lambda>p. fst p \<noteq> SOURCE_COLUMN_NAME) row)"
proof -
  have src: "\<exists>n row. src n row \<and> r = tag_row n row"
    using merged_row_source [OF assms] .
  have own: "\<forall>n row v. wf_row row \<and> row_get row SOURCE_COLUMN_NAME = Some v
             \<longrightarrow> row_get (tag_row n (row :: 'n ExcelRow)) SOURCE_COLUMN_NAME = Some v"
    by (simp add: tag_row_own_value)
  have fresh: "\<forall>n row. SOURCE_COLUMN_NAME \<notin> fst ` set row
             \<longrightarrow> row_get (tag_row n (row :: 'n ExcelRow)) SOURCE_COLUMN_NAME = Some (Str n)"
    by (simp add: tag_row_fresh)
  have content: "\<forall>n row k. wf_row row
             \<longrightarrow> row_get (tag_row n (row :: 'n ExcelRow)) k =
                   (case row_get row k of
                      Some v \<Rightarrow> Some v
                    | None \<Rightarrow> if k = SOURCE_COLUMN_NAME then Some (Str n) else None)"
    using tag_row_content by blast
  have shape: "\<forall>n row. fst ` set (tag_row n (row :: 'n ExcelRow))
                      = insert SOURCE_COLUMN_NAME (fst ` set row)
             \<and> wf_row (tag_row n row)
             \<and> keys_ordered (map fst (tag_row n row))"
    by (simp add: tag_row_keys tag_row_wf tag_row_ordered)
  have rest: "\<forall>n row. wf_row row
             \<longrightarrow> filter (\<lambda>p. \<not> is_index (fst p)) (tag_row n (row :: 'n ExcelRow)) =
                   (SOURCE_COLUMN_NAME,
                    case row_get row SOURCE_COLUMN_NAME of None \<Rightarrow> Str n | Some v \<Rightarrow> v)
                   # filter (\<lambda>p. \<not> is_index (fst p) \<and> fst p \<noteq> SOURCE_COLUMN_NAME) row"
    using tag_row_rest by blast
  have plain: "\<forall>n row. wf_row row \<and> list_all (\<lambda>p. \<not> is_index (fst p)) row
             \<longrightarrow> tag_row n (row :: 'n ExcelRow) =
                   (SOURCE_COLUMN_NAME,
                    case row_get row SOURCE_COLUMN_NAME of None \<Rightarrow> Str n | Some v \<Rightarrow> v)
                   # filter (\<lambda>p. fst p \<noteq> SOURCE_COLUMN_NAME) row"
    using tag_row_plain by blast
  from src own fresh content shape rest plain show ?thesis by (intro conjI)
qed

text \<open>
  A sheet named Data whose row has an empty cell in a column with the name of the
  provenance column: in both modes the merged row has \<^verbatim>\<open>null\<close> there, not the
  sheet name. A row with the columns 2 and 10, a column A and its own provenance column:
  the tagged row has 2 and 10 first, then the provenance column with the row's own value,
  then A.
\<close>

theorem source_value_overwrites_tag_witness:
  "fst (processMultipleFiles table_xlsx [F3]) = Inr [[(SOURCE_COLUMN_NAME, Null), (''A'', Num 1)]]
   \<and> fst (processSheetsInFile table_xlsx F3 [''Data'']) = Inr [[(SOURCE_COLUMN_NAME, Null), (''A'', Num 1)]]
   \<and> (\<exists>n row. from_files table_xlsx [F3] n row
         \<and> [(SOURCE_COLUMN_NAME, Null), (''A'', Num 1)] = tag_row n row)
   \<and> (\<exists>n row. from_selection table_xlsx F3 [''Data''] n row
         \<and> [(SOURCE_COLUMN_NAME, Null), (''A'', Num 1)] = tag_row n row)
   \<and> wf_row [(SOURCE_COLUMN_NAME, Null), (''A'', Num (1::int))]
   \<and> row_get [(SOURCE_COLUMN_NAME, Null), (''A'', Num (1::int))] SOURCE_COLUMN_NAME = Some Null
   \<and> row_get (tag_row ''Data'' [(SOURCE_COLUMN_NAME, Null), (''A'', Num (1::int))]) SOURCE_COLUMN_NAME
       = Some Null
   \<and> row_get (tag_row ''Data'' [(''A'', Num (1::int))]) SOURCE_COLUMN_NAME = Some (Str ''Data'')
   \<and> fst (processMultipleFiles table_xlsx [F5]) =
       Inr [[(''2'', Num 7), (''10'', Num 8), (SOURCE_COLUMN_NAME, Str ''own''), (''A'', Num 1)]]
   \<and> wf_row [(''2'', Num (7::int)), (''10'', Num 8), (''A'', Num 1), (SOURCE_COLUMN_NAME, Str ''own'')]
   \<and> tag_row ''Years'' [(''2'', Num (7::int)), (''10'', Num 8), (''A'', Num 1), (SOURCE_COLUMN_NAME, Str ''own'')]
       = [(''2'', Num 7), (''10'', Num 8), (SOURCE_COLUMN_NAME, Str ''own''), (''A'', Num 1)]
   \<and> row_get (tag_row ''Years''
         [(''2'', Num (7::int)), (''10'', Num 8), (''A'', Num 1), (SOURCE_COLUMN_NAME, Str ''own'')]) ''10''
       = Some (Num 8)
   \<and> keys_ordered [''2'', ''10'', SOURCE_COLUMN_NAME, ''A'']
   \<and> \<not> keys_ordered [''10'', ''2'', SOURCE_COLUMN_NAME, ''A'']
   \<and> \<not> keys_ordered [SOURCE_COLUMN_NAME, ''2'', ''10'', ''A'']
   \<and> filter (\<lambda>p. \<not> is_index (fst p)) (tag_row ''Years''
         [(''2'', Num (7::int)), (''10'', Num 8), (''A'', Num 1), (SOURCE_COLUMN_NAME, Str ''own'')])
       = [(SOURCE_COLUMN_NAME, Str ''own''), (''A'', Num 1)]
   \<and> tag_row ''Jan'' [(''A'', Num (1::int)), (''B'', Num 2)]
       = [(SOURCE_COLUMN_NAME, Str ''Jan''), (''A'', Num 1), (''B'', Num 2)]"
proof -
  let ?r = "[(SOURCE_COLUMN_NAME, Null), (''A'', Num (1::int))]"
  let ?y = "[(''2'', Num (7::int)), (''10'', Num 8), (''A'', Num 1), (SOURCE_COLUMN_NAME, Str ''own'')]"
  let ?ty = "[(''2'', Num (7::int)), (''10'', Num 8), (SOURCE_COLUMN_NAME, Str ''own''), (''A'', Num 1)]"
  let ?j = "[(''A'', Num (1::int)), (''B'', Num 2)]"
  have m: "fst (processMultipleFiles table_xlsx [F3]) = Inr [?r]"
    by (simp add: ex_defs merge_defs row_defs)
  have s: "fst (processSheetsInFile table_xlsx F3 [''Data'']) = Inr [?r]"
    by (simp add: ex_defs merge_defs row_defs)
  have r: "?r \<in> set [?r]" by simp
  have w: "wf_row ?r \<and> row_get ?r SOURCE_COLUMN_NAME = Some Null"
    by (simp add: row_defs)
  have a: "SOURCE_COLUMN_NAME \<notin> fst ` set [(''A'', Num (1::int))]"
    by (simp add: SOURCE_COLUMN_NAME_def)
  have hm: "fst (processMultipleFiles table_xlsx [F3]) = Inr [?r]
              \<and> from_files table_xlsx [F3] = from_files table_xlsx [F3]
          \<or> fst (processSheetsInFile table_xlsx F3 [''Data'']) = Inr [?r]
              \<and> from_files table_xlsx [F3] = from_selection table_xlsx F3 [''Data'']"
    using m by simp
  have hs: "fst (processMultipleFiles table_xlsx [F3]) = Inr [?r]
              \<and> from_selection table_xlsx F3 [''Data''] = from_files table_xlsx [F3]
          \<or> fst (processSheetsInFile table_xlsx F3 [''Data'']) = Inr [?r]
              \<and> from_selection table_xlsx F3 [''Data''] = from_selection table_xlsx F3 [''Data'']"
    using s by simp
  note tm = source_value_overwrites_tag [OF hm r]
  note ts = source_value_overwrites_tag [OF hs r]
  note t_own = tm [THEN conjunct2, THEN conjunct1, rule_format]
  note t_fresh = tm [THEN conjunct2, THEN conjunct2, THEN conjunct1, rule_format]
  note t_content = tm [THEN conjunct2, THEN conjunct2, THEN conjunct2, THEN conjunct1, rule_format]
  note t_rest = tm [THEN conjunct2, THEN conjunct2, THEN conjunct2, THEN conjunct2,
      THEN conjunct2, THEN conjunct1, rule_format]
  note t_plain = tm [THEN conjunct2, THEN conjunct2, THEN conjunct2, THEN conjunct2,
      THEN conjunct2, THEN conjunct2, rule_format]
  from tm have c1: "\<exists>n row. from_files table_xlsx [F3] n row \<and> ?r = tag_row n row"
    by (rule conjunct1)
  from ts have c2: "\<exists>n row. from_selection table_xlsx F3 [''Data''] n row \<and> ?r = tag_row n row"
    by (rule conjunct1)
  from w have c3: "row_get (tag_row ''Data'' ?r) SOURCE_COLUMN_NAME = Some Null"
    by (rule t_own)
  from a have c4: "row_get (tag_row ''Data'' [(''A'', Num (1::int))]) SOURCE_COLUMN_NAME
      = Some (Str ''Data'')"
    by (rule t_fresh)
  have wy: "wf_row ?y" by (simp add: row_defs)
  have gy: "row_get ?y ''10'' = Some (Num 8)" by (simp add: row_defs)
  from wy have "row_get (tag_row ''Years'' ?y) ''10'' =
      (case row_get ?y ''10'' of Some v \<Rightarrow> Some v
       | None \<Rightarrow> if ''10'' = SOURCE_COLUMN_NAME then Some (Str ''Years'') else None)"
    by (rule t_content)
  with gy have c5: "row_get (tag_row ''Years'' ?y) ''10'' = Some (Num 8)" by simp
  have sy: "row_get ?y SOURCE_COLUMN_NAME = Some (Str ''own'')" by (simp add: row_defs)
  have fy: "filter (\<lambda>p. \<not> is_index (fst p) \<and> fst p \<noteq> SOURCE_COLUMN_NAME) ?y = [(''A'', Num 1)]"
    by (simp add: row_defs index_defs)
  from wy have "filter (\<lambda>p. \<not> is_index (fst p)) (tag_row ''Years'' ?y) =
      (SOURCE_COLUMN_NAME, case row_get ?y SOURCE_COLUMN_NAME of None \<Rightarrow> Str ''Years'' | Some v \<Rightarrow> v)
        # filter (\<lambda>p. \<not> is_index (fst p) \<and> fst p \<noteq> SOURCE_COLUMN_NAME) ?y"
    by (rule t_rest)
  with sy fy have c6: "filter (\<lambda>p. \<not> is_index (fst p)) (tag_row ''Years'' ?y)
      = [(SOURCE_COLUMN_NAME, Str ''own''), (''A'', Num 1)]"
    by simp
  have wj: "wf_row ?j \<and> list_all (\<lambda>p. \<not> is_index (fst p)) ?j" by (simp add: row_defs index_defs)
  have gj: "row_get ?j SOURCE_COLUMN_NAME = None" by (simp add: row_defs)
  have fj: "filter (\<lambda>p. fst p \<noteq> SOURCE_COLUMN_NAME) ?j = ?j" by (simp add: row_defs)
  from wj have "tag_row ''Jan'' ?j =
      (SOURCE_COLUMN_NAME, case row_get ?j SOURCE_COLUMN_NAME of None \<Rightarrow> Str ''Jan'' | Some v \<Rightarrow> v)
        # filter (\<lambda>p. fst p \<noteq> SOURCE_COLUMN_NAME) ?j"
    by (rule t_plain)
  with gj fj have c7: "tag_row ''Jan'' ?j = (SOURCE_COLUMN_NAME, Str ''Jan'') # ?j" by simp
  have e1: "fst (processMultipleFiles table_xlsx [F5]) = Inr [?ty]"
    by (simp add: ex_defs merge_defs row_defs index_defs)
  have e2: "tag_row ''Years'' ?y = ?ty"
    by (simp add: row_defs index_defs)
  have k1: "keys_ordered [''2'', ''10'', SOURCE_COLUMN_NAME, ''A'']"
    by (simp add: keys_ordered_def row_defs index_defs)
  have k2: "\<not> keys_ordered [''10'', ''2'', SOURCE_COLUMN_NAME, ''A'']"
    by (simp add: keys_ordered_def row_defs index_defs)
  have k3: "\<not> keys_ordered [SOURCE_COLUMN_NAME, ''2'', ''10'', ''A'']"
    by (simp add: keys_ordered_def row_defs index_defs)
  from w have w1: "wf_row ?r" and w2: "row_get ?r SOURCE_COLUMN_NAME = Some Null" by simp_all
  from m s c1 c2 w1 w2 c3 c4 e1 wy e2 c5 k1 k2 k3 c6 c7 show ?thesis by (intro conjI)
qed

subsection \<open>C4: the provenance column of a merged row\<close>

text \<open>
  Claim C4 says that every row of a merged table has a non-null value in the provenance
  column. The file \<open>F3\<close> refutes it in both modes: the only merged row has
  \<^verbatim>\<open>null\<close> there, taken from the source row.
\<close>

theorem provenance_null_counterexample:
  "fst (processMultipleFiles table_xlsx [F3]) = Inr [[(SOURCE_COLUMN_NAME, Null), (''A'', Num 1)]]
   \<and> fst (processSheetsInFile table_xlsx F3 [''Data'']) = Inr [[(SOURCE_COLUMN_NAME, Null), (''A'', Num 1)]]
   \<and> row_get [(SOURCE_COLUMN_NAME, Null), (''A'', Num (1::int))] SOURCE_COLUMN_NAME = Some Null"
  by (simp add: ex_defs merge_defs row_defs)

text \<open>
  Claim C4, amended. In both merge modes every row of the merged table has a value in the
  provenance column: the name of the source sheet, or else the value that the source row
  itself has in a column of that name. It is non-null whenever the source row has no
  \<^verbatim>\<open>null\<close> cell in a column of that name.
\<close>

theorem provenance_present:
  assumes "fst (processMultipleFiles X fs) = Inr rows \<and> src = from_files X fs
         \<or> fst (processSheetsInFile X f sel) = Inr rows \<and> src = from_selection X f sel"
    and "r \<in> set rows"
  shows "\<exists>n row v. src n row \<and> r = tag_row n row
           \<and> row_get r SOURCE_COLUMN_NAME = Some v
           \<and> (v = Str n \<or> (SOURCE_COLUMN_NAME, v) \<in> set row)
           \<and> ((SOURCE_COLUMN_NAME, Null) \<notin> set row \<longrightarrow> v \<noteq> Null)"
proof -
  from merged_row_source [OF assms] obtain n row where nr: "src n row" "r = tag_row n row"
    by blast
  from tag_row_defined [of n row] nr obtain v where v: "row_get r SOURCE_COLUMN_NAME = Some v"
    by auto
  with nr tag_row_value [of n row v] have "v = Str n \<or> (SOURCE_COLUMN_NAME, v) \<in> set row"
    by simp
  with nr v show ?thesis by blast
qed

theorem provenance_present_witness:
  "fst (processMultipleFiles table_xlsx [F1]) =
       Inr [[(SOURCE_COLUMN_NAME, Str ''Jan''), (''A'', Num 1), (''B'', Num 2)],
            [(SOURCE_COLUMN_NAME, Str ''Feb''), (''A'', Num 3)]]
   \<and> (\<exists>n row v. from_files table_xlsx [F1] n row
         \<and> [(SOURCE_COLUMN_NAME, Str ''Feb''), (''A'', Num 3)] = tag_row n row
         \<and> row_get [(SOURCE_COLUMN_NAME, Str ''Feb''), (''A'', Num 3)] SOURCE_COLUMN_NAME = Some v
         \<and> (v = Str n \<or> (SOURCE_COLUMN_NAME, v) \<in> set row)
         \<and> v \<noteq> Null)"
proof -
  let ?rows = "[[(SOURCE_COLUMN_NAME, Str ''Jan''), (''A'', Num 1), (''B'', Num 2)],
            [(SOURCE_COLUMN_NAME, Str ''Feb''), (''A'', Num (3::int))]]"
  let ?r = "[(SOURCE_COLUMN_NAME, Str ''Feb''), (''A'', Num (3::int))]"
  have m: "fst (processMultipleFiles table_xlsx [F1]) = Inr ?rows"
    by (simp add: ex_defs merge_defs row_defs)
  have r: "?r \<in> set ?rows" by simp
  have v: "row_get ?r SOURCE_COLUMN_NAME = Some (Str ''Feb'')"
    by (simp add: row_get_def)
  have hm: "fst (processMultipleFiles table_xlsx [F1]) = Inr ?rows
              \<and> from_files table_xlsx [F1] = from_files table_xlsx [F1]
          \<or> fst (processSheetsInFile table_xlsx F1 []) = Inr ?rows
              \<and> from_files table_xlsx [F1] = from_selection table_xlsx F1 []"
    using m by simp
  from provenance_present [OF hm r] obtain n row v where
    p: "from_files table_xlsx [F1] n row" "?r = tag_row n row"
       "row_get ?r SOURCE_COLUMN_NAME = Some v"
       "v = Str n \<or> (SOURCE_COLUMN_NAME, v) \<in> set row"
    by blast
  from p(3) v have "v \<noteq> Null" by auto
  with p m show ?thesis by blast
qed

subsection \<open>C5: the cross-sheet merge follows the selection\<close>

text \<open>
  Claim C5. For a file that decodes, \<^verbatim>\<open>processSheetsInFile\<close> returns the tagged
  rows of the selected sheets in the order of \<^verbatim>\<open>selectedSheetNames\<close>, grouped by
  selected sheet; the order in which the workbook lists its sheets has no influence. A
  selected name that the workbook lacks contributes no row and raises no error: the result
  is the one of the selection without such names.
\<close>

theorem processSheetsInFile_selection_order:
  assumes "decoded X f = Some wb"
  shows "(fst (processSheetsInFile X f sel) = Inr rows
            \<longleftrightarrow> selection_ok X wb sel \<and> rows = selected_rows X wb sel)
       \<and> selected_rows X wb (sel @ sel') = selected_rows X wb sel @ selected_rows X wb sel'
       \<and> (Sheets wb n = None \<longrightarrow> selected_rows X wb [n] = [] \<and> selection_ok X wb [n])
       \<and> processSheetsInFile X f (filter (\<lambda>n. Sheets wb n \<noteq> None) sel) = processSheetsInFile X f sel
       \<and> processSheetsInFile
            (X\<lparr>XLSX_read := \<lambda>b. map_option (\<lambda>wb. wb\<lparr>SheetNames := ns\<rparr>) (XLSX_read X b)\<rparr>) f sel
          = processSheetsInFile X f sel"
proof -
  have loop: "selected_sheets_loop X wb (filter (\<lambda>n. Sheets wb n \<noteq> None) sel) acc
      = selected_sheets_loop X wb sel acc" for acc
    by (induction sel arbitrary: acc) (auto split: option.splits)
  have same: "processSheetsInFile X f (filter (\<lambda>n. Sheets wb n \<noteq> None) sel)
      = processSheetsInFile X f sel"
  proof -
    from assms obtain buf where buf: "arrayBuffer f = Some buf" "XLSX_read X buf = Some wb"
      by (auto simp: decoded_def split: option.splits)
    show ?thesis
      by (simp only: processSheetsInFile_def buf option.case loop)
  qed
  have rest: "(fst (processSheetsInFile X f sel) = Inr rows
            \<longleftrightarrow> selection_ok X wb sel \<and> rows = selected_rows X wb sel)
       \<and> selected_rows X wb (sel @ sel') = selected_rows X wb sel @ selected_rows X wb sel'
       \<and> (Sheets wb n = None \<longrightarrow> selected_rows X wb [n] = [] \<and> selection_ok X wb [n])"
    using assms
    by (auto simp: processSheetsInFile_result selected_rows_def selection_ok_def)
  from same rest processSheetsInFile_native_order [of ns X f sel] show ?thesis by blast
qed

text \<open>
  The workbook lists Jan, Apr, Feb; the selection Feb, Nov, Jan gives the rows of Feb and
  then those of Jan, as the selection without Nov does.
\<close>

theorem processSheetsInFile_selection_order_witness:
  "decoded table_xlsx F1 =
     Some \<lparr>SheetNames = [''Jan'', ''Apr'', ''Feb''],
           Sheets = map_of [(''Jan'', [[(''A'', Num 1), (''B'', Num 2)]]), (''Apr'', []),
                            (''Feb'', [[(''A'', Num 3)]])]\<rparr>
   \<and> fst (processSheetsInFile table_xlsx F1 [''Feb'', ''Nov'', ''Jan'']) =
       Inr [[(SOURCE_COLUMN_NAME, Str ''Feb''), (''A'', Num 3)],
            [(SOURCE_COLUMN_NAME, Str ''Jan''), (''A'', Num 1), (''B'', Num 2)]]
   \<and> processSheetsInFile table_xlsx F1 [''Feb'', ''Jan'']
       = processSheetsInFile table_xlsx F1 [''Feb'', ''Nov'', ''Jan'']"
proof -
  let ?wb = "\<lparr>SheetNames = [''Jan'', ''Apr'', ''Feb''],
           Sheets = map_of [(''Jan'', [[(''A'', Num (1::int)), (''B'', Num 2)]]), (''Apr'', []),
                            (''Feb'', [[(''A'', Num 3)]])]\<rparr>"
  let ?sel = "[''Feb'', ''Nov'', ''Jan'']"
  have d: "decoded table_xlsx F1 = Some ?wb"
    by (simp add: ex_defs decoded_def)
  have ok: "selection_ok table_xlsx ?wb ?sel"
    by (simp add: selection_ok_def table_xlsx_def)
  have rows: "selected_rows table_xlsx ?wb ?sel =
       [[(SOURCE_COLUMN_NAME, Str ''Feb''), (''A'', Num 3)],
        [(SOURCE_COLUMN_NAME, Str ''Jan''), (''A'', Num 1), (''B'', Num 2)]]"
    by (simp add: selected_rows_def tagged_sheet_def sheet_rows_def table_xlsx_def row_defs)
  have f: "filter (\<lambda>n. Sheets ?wb n \<noteq> None) ?sel = [''Feb'', ''Jan'']"
    by simp
  from processSheetsInFile_selection_order [OF d, of ?sel "selected_rows table_xlsx ?wb ?sel"]
  have "fst (processSheetsInFile table_xlsx F1 ?sel) = Inr (selected_rows table_xlsx ?wb ?sel)"
    and "processSheetsInFile table_xlsx F1 (filter (\<lambda>n. Sheets ?wb n \<noteq> None) ?sel)
           = processSheetsInFile table_xlsx F1 ?sel"
    using ok by blast+
  with d rows f show ?thesis by (simp only: simp_thms)
qed

subsection \<open>C6: a file that fails to decode aborts the cross-file merge\<close>

text \<open>
  Claim C6. When a file of the sequence fails to decode, there is a first such file, and
  \<^verbatim>\<open>processMultipleFiles\<close> returns no rows but a single error whose message is
  the fixed prefix of line 40 followed by the name of that file, so that the name is read
  off the message and different names give different messages. The rows gathered from the
  files before it are dropped, and the files after it are never read: the reads are those
  of the files up to the failing one.
\<close>

theorem processMultipleFiles_aborts:
  "(list_all (file_ok X) pre \<and> \<not> file_ok X f
      \<longrightarrow> processMultipleFiles X (pre @ f # post)
            = (Inl (Error (''Kh'' @ [CHR 0xC3, CHR 0xB4] @ ''ng th'' @ [CHR 0xE1, CHR 0xBB, CHR 0x83]
                            @ '' x'' @ [CHR 0xE1, CHR 0xBB, CHR 0xAD] @ '' l'' @ [CHR 0xC3, CHR 0xBD]
                            @ '' file: '' @ name f)),
               map name pre @ [name f]))
   \<and> (\<not> list_all (file_ok X) fs
      \<longrightarrow> (\<exists>pre f post. fs = pre @ f # post \<and> list_all (file_ok X) pre \<and> \<not> file_ok X f))
   \<and> (cannot_process a = cannot_process b \<longrightarrow> a = b)
   \<and> drop 28 (cannot_process a) = a"
  using first_failure [of "file_ok X" fs]
  by (simp add: processMultipleFiles_def files_loop_fail cannot_process_def)

theorem processMultipleFiles_aborts_witness:
  "list_all (file_ok table_xlsx) [F1] \<and> \<not> file_ok table_xlsx (broken_file ''bad.xlsx'')
   \<and> processMultipleFiles table_xlsx ([F1] @ broken_file ''bad.xlsx'' # [F2])
        = (Inl (Error (''Kh'' @ [CHR 0xC3, CHR 0xB4] @ ''ng th'' @ [CHR 0xE1, CHR 0xBB, CHR 0x83]
                        @ '' x'' @ [CHR 0xE1, CHR 0xBB, CHR 0xAD] @ '' l'' @ [CHR 0xC3, CHR 0xBD]
                        @ '' file: bad.xlsx'')),
           [''F1.xlsx'', ''bad.xlsx''])
   \<and> \<not> list_all (file_ok table_xlsx) [F1, broken_file ''bad.xlsx'', F2]
   \<and> (\<exists>pre f post. [F1, broken_file ''bad.xlsx'', F2] = pre @ f # post
         \<and> list_all (file_ok table_xlsx) pre \<and> \<not> file_ok table_xlsx f)
   \<and> drop 28 (cannot_process ''bad.xlsx'') = ''bad.xlsx''"
proof -
  have ok: "list_all (file_ok table_xlsx) [F1]"
    by (simp add: ex_defs spec_defs)
  have bad: "\<not> file_ok table_xlsx (broken_file ''bad.xlsx'')"
    by (simp add: ex_defs spec_defs)
  have some: "\<not> list_all (file_ok table_xlsx) [F1, broken_file ''bad.xlsx'', F2]"
    using bad by simp
  note t = processMultipleFiles_aborts [of table_xlsx "[F1]" "broken_file ''bad.xlsx''" "[F2]"
      "[F1, broken_file ''bad.xlsx'', F2]" "''bad.xlsx''" "''bad.xlsx''"]
  from ok bad have
    "processMultipleFiles table_xlsx ([F1] @ broken_file ''bad.xlsx'' # [F2])
       = (Inl (Error (''Kh'' @ [CHR 0xC3, CHR 0xB4] @ ''ng th'' @ [CHR 0xE1, CHR 0xBB, CHR 0x83]
                       @ '' x'' @ [CHR 0xE1, CHR 0xBB, CHR 0xAD] @ '' l'' @ [CHR 0xC3, CHR 0xBD]
                       @ '' file: '' @ name (broken_file ''bad.xlsx''))),
          map name [F1] @ [name (broken_file ''bad.xlsx'')])"
    using t [THEN conjunct1] by (simp only: simp_thms)
  then have res: "processMultipleFiles table_xlsx ([F1] @ broken_file ''bad.xlsx'' # [F2])
       = (Inl (Error (''Kh'' @ [CHR 0xC3, CHR 0xB4] @ ''ng th'' @ [CHR 0xE1, CHR 0xBB, CHR 0x83]
                        @ '' x'' @ [CHR 0xE1, CHR 0xBB, CHR 0xAD] @ '' l'' @ [CHR 0xC3, CHR 0xBD]
                        @ '' file: bad.xlsx'')),
          [''F1.xlsx'', ''bad.xlsx''])"
    by (simp add: ex_defs)
  from some have ex: "\<exists>pre f post. [F1, broken_file ''bad.xlsx'', F2] = pre @ f # post
         \<and> list_all (file_ok table_xlsx) pre \<and> \<not> file_ok table_xlsx f"
    by (rule t [THEN conjunct2, THEN conjunct1, rule_format])
  have dr: "drop 28 (cannot_process ''bad.xlsx'') = ''bad.xlsx''"
    by (rule t [THEN conjunct2, THEN conjunct2, THEN conjunct2])
  from ok bad res some ex dr show ?thesis by (intro conjI)
qed

subsection \<open>C7: an empty selection is refused before any decoding\<close>

text \<open>
  Claim C7. In the cross-sheet mode, with a file chosen and no sheet selected,
  \<^verbatim>\<open>handleMerge\<close> sets the message asking for at least one sheet and stops: no
  file contents are read, so no merge function has run, and the selected file and the list
  of sheet names are as before.
\<close>

theorem handleMerge_empty_selection:
  assumes "mergeMode s = sheets_mode" and "files s \<noteq> []"
    and "filter selected (singleFileSheets s) = []"
  shows "handleMerge X s =
           [SetIsLoading True, SetError None, SetMergedData None,
            SetError (Some msg_choose_sheet), SetIsLoading False, SetIsLoading False]
       \<and> \<not> list_ex is_read (handleMerge X s)
       \<and> files (run_events (handleMerge X s) s) = files s
       \<and> singleFileSheets (run_events (handleMerge X s) s) = singleFileSheets s
       \<and> error (run_events (handleMerge X s) s) = Some msg_choose_sheet"
  using assms by (simp add: handleMerge_def run_events_def)

theorem handleMerge_empty_selection_witness:
  "handleMerge table_xlsx
     (session sheets_mode [F1]
        [\<lparr>sheet_name = ''Jan'', selected = False\<rparr>, \<lparr>sheet_name = ''Feb'', selected = False\<rparr>])
     = [SetIsLoading True, SetError None, SetMergedData None,
        SetError (Some msg_choose_sheet), SetIsLoading False, SetIsLoading False]
   \<and> files (run_events (handleMerge table_xlsx
        (session sheets_mode [F1]
          [\<lparr>sheet_name = ''Jan'', selected = False\<rparr>, \<lparr>sheet_name = ''Feb'', selected = False\<rparr>]))
        (session sheets_mode [F1]
          [\<lparr>sheet_name = ''Jan'', selected = False\<rparr>, \<lparr>sheet_name = ''Feb'', selected = False\<rparr>]))
     = [F1]"
proof -
  let ?s = "session sheets_mode [F1]
        [\<lparr>sheet_name = ''Jan'', selected = False\<rparr>, \<lparr>sheet_name = ''Feb'', selected = False\<rparr>]"
  have h: "mergeMode ?s = sheets_mode" "files ?s \<noteq> []" "filter selected (singleFileSheets ?s) = []"
    by (simp_all add: session_def)
  have f: "files ?s = [F1]" by (simp add: session_def)
  from handleMerge_empty_selection [OF h, of table_xlsx]
  have a: "handleMerge table_xlsx ?s
     = [SetIsLoading True, SetError None, SetMergedData None,
        SetError (Some msg_choose_sheet), SetIsLoading False, SetIsLoading False]"
    and b: "files (run_events (handleMerge table_xlsx ?s) ?s) = files ?s"
    by blast+
  from b f have "files (run_events (handleMerge table_xlsx ?s) ?s) = [F1]" by simp
  with a show ?thesis by blast
qed

subsection \<open>C8: the merged table is cleared before the merge is attempted\<close>

text \<open>
  Claim C8. With a non-empty file list \<^verbatim>\<open>handleMerge\<close> starts by clearing the
  stored merged table, before any file is read. So when the merge function then fails the
  session holds no merged table; the session holds one at the end only when the merge has
  returned at least one row.
\<close>

theorem handleMerge_clears_first:
  assumes "files s \<noteq> []"
  shows "handleMerge X s =
           [SetIsLoading True, SetError None, SetMergedData None] @ drop 3 (handleMerge X s)
       \<and> mergedData (run_events (take 3 (handleMerge X s)) s) = None
       \<and> (\<forall>e. fst (merge_call X s) = Inl e \<longrightarrow> mergedData (run_events (handleMerge X s) s) = None)
       \<and> (mergedData (run_events (handleMerge X s) s) = None
           \<or> (\<exists>data. data \<noteq> [] \<and> fst (merge_call X s) = Inr data
                 \<and> mergedData (run_events (handleMerge X s) s) = Some data))"
  using assms
  by (cases "mergeMode s")
     (auto simp: handleMerge_def run_events_def merge_call_def after_merge_mergedData Let_def
           split: sum.splits)

theorem handleMerge_clears_first_witness:
  "mergedData (session files_mode [broken_file ''bad.xlsx''] []) = Some [[(''old'', Num 0)]]
   \<and> fst (merge_call table_xlsx (session files_mode [broken_file ''bad.xlsx''] []))
       = Inl (Error (cannot_process ''bad.xlsx''))
   \<and> mergedData (run_events (handleMerge table_xlsx (session files_mode [broken_file ''bad.xlsx''] []))
        (session files_mode [broken_file ''bad.xlsx''] [])) = None
   \<and> mergedData (run_events (take 3 (handleMerge table_xlsx (session files_mode [broken_file ''bad.xlsx''] [])))
        (session files_mode [broken_file ''bad.xlsx''] [])) = None"
proof -
  let ?s = "session files_mode [broken_file ''bad.xlsx''] []"
  have h: "files ?s \<noteq> []" by (simp add: session_def)
  have old: "mergedData ?s = Some [[(''old'', Num 0)]]" by (simp add: session_def)
  have fails: "fst (merge_call table_xlsx ?s) = Inl (Error (cannot_process ''bad.xlsx''))"
    by (simp add: merge_call_def ex_defs merge_defs)
  from handleMerge_clears_first [OF h, of table_xlsx]
  have a: "mergedData (run_events (take 3 (handleMerge table_xlsx ?s)) ?s) = None"
    and b: "\<forall>e. fst (merge_call table_xlsx ?s) = Inl e
              \<longrightarrow> mergedData (run_events (handleMerge table_xlsx ?s) ?s) = None"
    by blast+
  from b fails have "mergedData (run_events (handleMerge table_xlsx ?s) ?s) = None" by blast
  with a fails old show ?thesis by blast
qed

subsection \<open>C9: a merge without rows\<close>



subsection \<open>C10: no file chosen\<close>

text \<open>
  Claim C10. With an empty file list \<^verbatim>\<open>handleMerge\<close> only sets the message
  asking for a file: it returns before the clearing step, the stored merged table is
  unchanged and nothing is read.
\<close>

theorem handleMerge_no_files:
  assumes "files s = []"
  shows "handleMerge X s = [SetError (Some msg_choose_file)]
       \<and> run_events (handleMerge X s) s = s\<lparr>error := Some msg_choose_file\<rparr>
       \<and> mergedData (run_events (handleMerge X s) s) = mergedData s
       \<and> \<not> list_ex is_read (handleMerge X s)"
  using assms by (simp add: handleMerge_def run_events_def)

theorem handleMerge_no_files_witness:
  "handleMerge table_xlsx (session files_mode [] []) = [SetError (Some msg_choose_file)]
   \<and> mergedData (run_events (handleMerge table_xlsx (session files_mode [] []))
        (session files_mode [] [])) = Some [[(''old'', Num 0)]]"
proof -
  let ?s = "session files_mode [] []"
  have h: "files ?s = []" by (simp add: session_def)
  have old: "mergedData ?s = Some [[(''old'', Num 0)]]" by (simp add: session_def)
  from handleMerge_no_files [OF h, of table_xlsx]
  have a: "handleMerge table_xlsx ?s = [SetError (Some msg_choose_file)]"
    and b: "mergedData (run_events (handleMerge table_xlsx ?s) ?s) = mergedData ?s"
    by blast+
  from b old have "mergedData (run_events (handleMerge table_xlsx ?s) ?s) = Some [[(''old'', Num 0)]]"
    by simp
  with a show ?thesis by blast
qed

end
